theory Spec2Isabelle
  imports Main "HOL-Library.Word"
begin

unbundle bit_operations_syntax

text \<open>
  A model of \<open>multicam.c\<close>: the initialisation of a camera object, the capture cycle of
  one worker thread, the single-device read and the batch read over the cameras of a
  capture system. The driver (\<open>v4l2_xioctl\<close>), the conversion library (\<open>ConvertToARGB\<close>,
  \<open>ARGBToRAW\<close>) and NumPy are outside the file; what they answer is a parameter of the
  model, and the calls made to them are recorded in the order the code makes them.
\<close>

section \<open>C values\<close>

text \<open>
  The source computes every size and offset in the C type \<open>int\<close>. A value of that type
  is modelled as an \<open>int\<close> between \<open>INT_MIN\<close> and \<open>INT_MAX\<close>. Signed overflow is undefined
  behaviour in C; the model makes it an outcome of its own, \<open>UndefinedBehaviour\<close>, so the
  results below are about the executions whose behaviour C defines.
\<close>

definition INT_MAX :: int where
  "INT_MAX = 2147483647"

definition INT_MIN :: int where
  "INT_MIN = - 2147483648"

datatype py_exc =
    ValueError string
  | RuntimeError string
  | AttributeError string
  | ArrayError

datatype failure = PyErr py_exc | UndefinedBehaviour

definition mul_int :: "int \<Rightarrow> int \<Rightarrow> failure + int" where
  "mul_int a b =
     (if INT_MIN \<le> a * b \<and> a * b \<le> INT_MAX then Inr (a * b) else Inl UndefinedBehaviour)"

subsection \<open>printf-style \<open>%i\<close>\<close>

definition digit_char :: "nat \<Rightarrow> char" where
  "digit_char d = char_of (48 + d)"

fun dec_nat :: "nat \<Rightarrow> string" where
  "dec_nat n = (if n < 10 then [digit_char n] else dec_nat (n div 10) @ [digit_char (n mod 10)])"

definition fmt_i :: "int \<Rightarrow> string" where
  "fmt_i i = (if i < 0 then CHR ''-'' # dec_nat (nat (- i)) else dec_nat (nat i))"

definition newline :: char where
  "newline = char_of (10 :: nat)"

section \<open>Data model\<close>

text \<open>
  \<open>CameraObject\<close> is declared in \<open>multicam.h\<close>; the fields are the ones \<open>multicam.c\<close>
  reads and writes. \<open>format\<close> is a C string (its bytes before the terminator, so none
  of them is 0 and \<open>strlen\<close> is the length of the list), \<open>None\<close> for \<open>NULL\<close>; \<open>buffers\<close> is
  left out, the model does not hold pixel data.
\<close>

record CameraObject =
  device :: string
  width :: int
  height :: int
  fps :: nat
  format :: "string option"
  fourcc :: "32 word"
  n_buffers :: nat
  fd :: int

text \<open>
  \<open>dst\<close> is a pointer into the destination buffer in the source; here it is the byte
  offset from the start of that buffer.
\<close>

record CamReadWorkerArgStruct =
  cam :: CameraObject
  dst :: int
  res :: int

section \<open>The collaborators of one capture cycle\<close>

text \<open>
  What the driver and the conversion library answer during one cycle on one device: the
  return values of \<open>v4l2_xioctl(VIDIOC_DQBUF)\<close>, \<open>ConvertToARGB\<close>,
  \<open>v4l2_xioctl(VIDIOC_QBUF)\<close> and \<open>ARGBToRAW\<close>.
\<close>

record dev_env =
  dqbuf_ret :: int
  to_argb_ret :: int
  qbuf_ret :: int
  to_raw_ret :: int

text \<open>
  The calls a worker makes, in program order. \<open>ConvertToARGB sz stride w h\<close> carries the
  size of the scratch array it writes and the stride, width and height passed;
  \<open>ARGBToRAW dst stride w h\<close> the destination offset, stride, width and height passed.
\<close>

datatype wevent =
    DQBUF
  | ConvertToARGB int int int int
  | QBUF
  | ARGBToRAW int int int int

section \<open>cam_read_worker\<close>

text \<open>
  The scratch array \<open>argb\<close> is a variable-length array of \<open>height * width * 4\<close> bytes; C
  requires that size to be positive.
\<close>

definition argb_size :: "CameraObject \<Rightarrow> failure + int" where
  "argb_size c =
     (case mul_int (height c) (width c) of
        Inl e \<Rightarrow> Inl e
      | Inr hw \<Rightarrow>
          (case mul_int hw 4 of
             Inl e \<Rightarrow> Inl e
           | Inr sz \<Rightarrow> if sz \<le> 0 then Inl UndefinedBehaviour else Inr sz))"

definition cam_read_worker ::
  "dev_env \<Rightarrow> CamReadWorkerArgStruct \<Rightarrow> failure + (CamReadWorkerArgStruct \<times> wevent list)" where
  "cam_read_worker d args =
     (let c = cam args in
      case argb_size c of
        Inl e \<Rightarrow> Inl e
      | Inr sz \<Rightarrow>
          if dqbuf_ret d = - 1 then Inr (args\<lparr>res := 1\<rparr>, [DQBUF])
          else
            (case mul_int (width c) 4 of
               Inl e \<Rightarrow> Inl e
             | Inr stride4 \<Rightarrow>
                 let conv1 = ConvertToARGB sz stride4 (width c) (height c) in
                 if to_argb_ret d \<noteq> 0 then Inr (args\<lparr>res := 2\<rparr>, [DQBUF, conv1])
                 else if qbuf_ret d = - 1 then Inr (args\<lparr>res := 3\<rparr>, [DQBUF, conv1, QBUF])
                 else
                   (case mul_int (width c) 3 of
                      Inl e \<Rightarrow> Inl e
                    | Inr stride3 \<Rightarrow>
                        let conv2 = ARGBToRAW (dst args) stride3 (width c) (height c) in
                        if to_raw_ret d \<noteq> 0
                        then Inr (args\<lparr>res := 4\<rparr>, [DQBUF, conv1, QBUF, conv2])
                        else Inr (args\<lparr>res := 0\<rparr>, [DQBUF, conv1, QBUF, conv2]))))"

section \<open>camera_read\<close>

text \<open>
  An array object as NumPy hands it out: its dimensions and its element type.
\<close>

datatype npy_type = NPY_UINT8

record ndarray =
  dims :: "int list"
  typenum :: npy_type

text \<open>
  What the surroundings answer during a call: whether NumPy can build the array asked
  for, and what the device at index \<open>i\<close> of a batch answers during its cycle. NumPy
  refuses a negative dimension whatever memory there is.
\<close>

record world =
  array_ok :: bool
  devs :: "nat \<Rightarrow> dev_env"

definition PyArray_New :: "world \<Rightarrow> int list \<Rightarrow> npy_type \<Rightarrow> ndarray option" where
  "PyArray_New wd ds t =
     (if array_ok wd \<and> list_all (\<lambda>d. 0 \<le> d) ds then Some \<lparr>dims = ds, typenum = t\<rparr> else None)"

definition PyArray_SimpleNew :: "world \<Rightarrow> int list \<Rightarrow> npy_type \<Rightarrow> ndarray option" where
  "PyArray_SimpleNew wd ds t =
     (if array_ok wd \<and> list_all (\<lambda>d. 0 \<le> d) ds then Some \<lparr>dims = ds, typenum = t\<rparr> else None)"

text \<open>
  The outcome of a read: the value returned (\<open>Inl\<close> for \<open>NULL\<close> with the exception set),
  the steps of the orchestrating thread in program order (the thread calls, and
  \<open>check_res i\<close> where it reads \<open>res\<close> of the record at index \<open>i\<close>), the argument records
  as the workers left them, and each worker's own calls.
  \<open>PyDataMem_NEW\<close>, \<open>malloc\<close> and \<open>pthread_create\<close> are taken to succeed: the source
  does not test their results.
\<close>

datatype event =
    pthread_create nat CamReadWorkerArgStruct
  | pthread_join nat
  | check_res nat

record call =
  ret :: "failure + ndarray"
  trace :: "event list"
  cam_args :: "CamReadWorkerArgStruct list"
  work :: "wevent list list"

definition failed :: "failure \<Rightarrow> call" where
  "failed e = \<lparr>ret = Inl e, trace = [], cam_args = [], work = []\<rparr>"

definition camera_read :: "world \<Rightarrow> dev_env \<Rightarrow> CameraObject \<Rightarrow> call" where
  "camera_read wd d self =
     (case mul_int (width self) (height self) of
        Inl e \<Rightarrow> failed e
      | Inr wh \<Rightarrow>
          (case mul_int wh 3 of
             Inl e \<Rightarrow> failed e
           | Inr sz \<Rightarrow>
               let a = \<lparr>cam = self, dst = 0, res = 0\<rparr> in
               (case cam_read_worker d a of
                  Inl e \<Rightarrow> failed e
                | Inr (a', w) \<Rightarrow>
                    \<lparr>ret =
                       (if res a' \<noteq> 0
                        then Inl (PyErr (RuntimeError
                               (''Reading image failed: '' @ fmt_i (res a') @ [newline])))
                        else
                          (case PyArray_New wd [height self, width self, 3] NPY_UINT8 of
                             None \<Rightarrow> Inl (PyErr (RuntimeError (''PyArray_NEW failed'' @ [newline])))
                           | Some arr \<Rightarrow> Inr arr)),
                     trace = [pthread_create 0 a, pthread_join 0, check_res 0],
                     cam_args = [a'],
                     work = [w]\<rparr>)))"

section \<open>camsys_read\<close>

text \<open>
  The capture system object as \<open>camsys_read\<close> reads it: the attribute \<open>cameras\<close> (a
  sequence of cameras whose length fits an \<open>int\<close>), and the attributes \<open>width\<close> and
  \<open>height\<close> as the C \<open>int\<close> that \<open>(int) PyLong_AsLong\<close> gives. \<open>None\<close> is a missing
  attribute.
\<close>

record camsys =
  cameras :: "CameraObject list option"
  sys_width :: "int option"
  sys_height :: "int option"

text \<open>The loop preparing the thread arguments, from index \<open>i\<close> on.\<close>

fun prepare_args ::
  "CameraObject list \<Rightarrow> nat \<Rightarrow> int \<Rightarrow> failure + CamReadWorkerArgStruct list" where
  "prepare_args [] i cam_dst_sz = Inr []"
| "prepare_args (c # cs) i cam_dst_sz =
     (case mul_int (int i) cam_dst_sz of
        Inl e \<Rightarrow> Inl e
      | Inr off \<Rightarrow>
          (case prepare_args cs (Suc i) cam_dst_sz of
             Inl e \<Rightarrow> Inl e
           | Inr rest \<Rightarrow> Inr (\<lparr>cam = c, dst = off, res = 0\<rparr> # rest)))"

text \<open>
  The workers from index \<open>i\<close> on, each run to completion. A worker reads its own argument
  record and its own device only, so what it returns does not depend on how the threads
  interleave.
\<close>

fun run_workers ::
  "(nat \<Rightarrow> dev_env) \<Rightarrow> nat \<Rightarrow> CamReadWorkerArgStruct list \<Rightarrow>
     failure + (CamReadWorkerArgStruct \<times> wevent list) list" where
  "run_workers dv i [] = Inr []"
| "run_workers dv i (a # as) =
     (case cam_read_worker (dv i) a of
        Inl e \<Rightarrow> Inl e
      | Inr r \<Rightarrow>
          (case run_workers dv (Suc i) as of
             Inl e \<Rightarrow> Inl e
           | Inr rs \<Rightarrow> Inr (r # rs)))"

text \<open>The loop checking for errors, from index \<open>i\<close> on: the first record with \<open>res \<noteq> 0\<close>.\<close>

fun first_error :: "nat \<Rightarrow> CamReadWorkerArgStruct list \<Rightarrow> (nat \<times> int) option" where
  "first_error i [] = None"
| "first_error i (a # as) = (if res a \<noteq> 0 then Some (i, res a) else first_error (Suc i) as)"

text \<open>The records that loop reads, in the order it reads them.\<close>

fun examined :: "nat \<Rightarrow> CamReadWorkerArgStruct list \<Rightarrow> event list" where
  "examined i [] = []"
| "examined i (a # as) = check_res i # (if res a \<noteq> 0 then [] else examined (Suc i) as)"

text \<open>
  The part of \<open>camsys_read\<close> from the creation of the threads on: \<open>arr\<close> is the array
  allocated, \<open>args\<close> the argument records prepared, \<open>rs\<close> what each worker returns (its
  record and its calls).
\<close>

definition run_and_check ::
  "ndarray \<Rightarrow> CamReadWorkerArgStruct list \<Rightarrow> (CamReadWorkerArgStruct \<times> wevent list) list \<Rightarrow> call" where
  "run_and_check arr args rs =
     \<lparr>ret =
        (case first_error 0 (map fst rs) of
           Some (i, r) \<Rightarrow>
             Inl (PyErr (RuntimeError
               (''Reading image from camera '' @ fmt_i (int i)
                  @ '' failed: '' @ fmt_i r @ [newline])))
         | None \<Rightarrow> Inr arr),
      trace =
        map (\<lambda>i. pthread_create i (args ! i)) [0..<length args]
          @ map pthread_join [0..<length args]
          @ examined 0 (map fst rs),
      cam_args = map fst rs,
      work = map snd rs\<rparr>"

definition camsys_read :: "world \<Rightarrow> camsys \<Rightarrow> call" where
  "camsys_read wd cs =
     (case cameras cs of
        None \<Rightarrow> failed (PyErr (AttributeError ''cameras''))
      | Some cams \<Rightarrow>
          let N = int (length cams) in
          if N \<le> 0 then failed (PyErr (ValueError ''camsys contains no cameras.''))
          else
            (case sys_width cs of
               None \<Rightarrow> failed (PyErr (AttributeError ''width''))
             | Some w \<Rightarrow>
                 (case sys_height cs of
                    None \<Rightarrow> failed (PyErr (AttributeError ''height''))
                  | Some h \<Rightarrow>
                      (case mul_int w h of
                         Inl e \<Rightarrow> failed e
                       | Inr wh \<Rightarrow>
                           (case mul_int wh 3 of
                              Inl e \<Rightarrow> failed e
                            | Inr cam_dst_sz \<Rightarrow>
                                (case PyArray_SimpleNew wd [N, h, w, 3] NPY_UINT8 of
                                   None \<Rightarrow> failed (PyErr ArrayError)
                                 | Some arr \<Rightarrow>
                                     (case prepare_args cams 0 cam_dst_sz of
                                        Inl e \<Rightarrow> failed e
                                      | Inr args \<Rightarrow>
                                          (case run_workers (devs wd) 0 args of
                                             Inl e \<Rightarrow> failed e
                                           | Inr rs \<Rightarrow> run_and_check arr args rs))))))))"

section \<open>Camera_init\<close>

text \<open>
  The arguments after \<open>PyArg_ParseTupleAndKeywords\<close> has accepted them: \<open>size\<close>, \<open>fps\<close> and
  \<open>format\<close> are optional, and a field whose argument is absent keeps its value.
\<close>

record init_args =
  arg_device :: string
  arg_size :: "(int \<times> int) option"
  arg_fps :: "nat option"
  arg_format :: "string option"

text \<open>
  \<open>toupper\<close> in the C locale. Its argument must be representable as \<open>unsigned char\<close>;
  where plain \<open>char\<close> is signed a byte from 128 on is a negative argument, which C leaves
  undefined.
\<close>

definition toupper :: "char \<Rightarrow> char" where
  "toupper c =
     (if 97 \<le> (of_char c :: nat) \<and> (of_char c :: nat) \<le> 122
      then char_of ((of_char c :: nat) - 32) else c)"

text \<open>
  Modelled from the spec: the macro \<open>FOURCC\<close>, which \<open>multicam.c\<close> uses and a header
  outside it declares. The spec has the four characters packed into a 4-byte tag in a
  fixed byte order; the order taken here is the one of libyuv and V4L2, the first
  character in the lowest byte.
\<close>

definition FOURCC :: "char \<Rightarrow> char \<Rightarrow> char \<Rightarrow> char \<Rightarrow> 32 word" where
  "FOURCC a b c d =
     (of_char a) OR push_bit 8 (of_char b) OR push_bit 16 (of_char c) OR push_bit 24 (of_char d)"

definition STR2FOURCC :: "string \<Rightarrow> failure + 32 word" where
  "STR2FOURCC s =
     (if list_all (\<lambda>c. (of_char c :: nat) < 128) (take 4 s)
      then Inr (FOURCC (toupper (s ! 0)) (toupper (s ! 1)) (toupper (s ! 2)) (toupper (s ! 3)))
      else Inl UndefinedBehaviour)"

definition Camera_init :: "CameraObject \<Rightarrow> init_args \<Rightarrow> failure + CameraObject" where
  "Camera_init self a =
     (let self1 = self\<lparr>
            device := arg_device a,
            width := (case arg_size a of None \<Rightarrow> width self | Some (w, h) \<Rightarrow> w),
            height := (case arg_size a of None \<Rightarrow> height self | Some (w, h) \<Rightarrow> h),
            fps := (case arg_fps a of None \<Rightarrow> fps self | Some f \<Rightarrow> f),
            format := (case arg_format a of None \<Rightarrow> format self | Some s \<Rightarrow> Some s)\<rparr> in
      case format self1 of
        None \<Rightarrow> Inr (self1\<lparr>fourcc := 0, n_buffers := 0, fd := - 1\<rparr>)
      | Some s \<Rightarrow>
          if length s \<noteq> 4
          then Inl (PyErr (ValueError ([CHR 0x60] @ s @ [CHR 0x60] @ '' is not a valid FOURCC'')))
          else
            (case STR2FOURCC s of
               Inl e \<Rightarrow> Inl e
             | Inr t \<Rightarrow> Inr (self1\<lparr>fourcc := t, n_buffers := 0, fd := - 1\<rparr>)))"

section \<open>Notions used to state the properties\<close>

text \<open>
  A camera whose frame can be held in the scratch array: the size
  \<open>height * width * 4\<close> is positive and fits an \<open>int\<close>.
\<close>

definition frame_ok :: "CameraObject \<Rightarrow> bool" where
  "frame_ok c \<longleftrightarrow> 0 < height c * width c \<and> height c * width c * 4 \<le> INT_MAX"

text \<open>
  The four stages of a capture cycle as the spec numbers them: 1 dequeue, 2 conversion to
  the intermediate representation, 3 requeue, 4 conversion into the destination.
  \<open>stage_fails d k\<close> says that the collaborator of stage \<open>k\<close> reports a failure.
\<close>

definition stage_fails :: "dev_env \<Rightarrow> nat \<Rightarrow> bool" where
  "stage_fails d k =
     (if k = 1 then dqbuf_ret d = - 1
      else if k = 2 then to_argb_ret d \<noteq> 0
      else if k = 3 then qbuf_ret d = - 1
      else if k = 4 then to_raw_ret d \<noteq> 0
      else False)"

definition first_failed :: "dev_env \<Rightarrow> nat option" where
  "first_failed d = List.find (stage_fails d) [1, 2, 3, 4]"

text \<open>The outcome the spec asks for: 0 for success, else the number of the first failed stage.\<close>

definition outcome_code :: "dev_env \<Rightarrow> int" where
  "outcome_code d = (case first_failed d of None \<Rightarrow> 0 | Some k \<Rightarrow> int k)"

text \<open>The number of stages attempted: all four, or those up to the first failed one.\<close>

definition stages_run :: "dev_env \<Rightarrow> nat" where
  "stages_run d = (case first_failed d of None \<Rightarrow> 4 | Some k \<Rightarrow> k)"

text \<open>
  The full cycle in the spec's order, with a scratch buffer of \<open>width \<times> height \<times> 4\<close>
  bytes and rows of \<open>width \<times> 3\<close> bytes written from \<open>dst\<close>.
\<close>

definition cycle_stages :: "CamReadWorkerArgStruct \<Rightarrow> wevent list" where
  "cycle_stages a =
     (let w = width (cam a); h = height (cam a) in
      [DQBUF, ConvertToARGB (w * h * 4) (w * 4) w h, QBUF, ARGBToRAW (dst a) (w * 3) w h])"

text \<open>
  The bytes of the destination buffer a call may address. \<open>ARGBToRAW\<close> writes \<open>h\<close> rows,
  \<open>stride\<close> bytes apart, from \<open>dst\<close>; \<open>ConvertToARGB\<close> writes the worker's own scratch array
  and the driver calls write no pixel.
\<close>

fun writes :: "wevent \<Rightarrow> int set" where
  "writes (ARGBToRAW d stride w h) = {d ..< d + h * stride}"
| "writes _ = {}"

definition worker_writes :: "wevent list \<Rightarrow> int set" where
  "worker_writes tr = (\<Union>e \<in> set tr. writes e)"

text \<open>The slice of \<open>sz\<close> bytes that starts where the record's \<open>dst\<close> points.\<close>

definition slice :: "int \<Rightarrow> CamReadWorkerArgStruct \<Rightarrow> int set" where
  "slice sz a = {dst a ..< dst a + sz}"

text \<open>
  The threads that are running after a sequence of steps of the orchestrating thread:
  \<open>pthread_create\<close> starts one, \<open>pthread_join\<close> returns once it has ended.
\<close>

fun step :: "event \<Rightarrow> nat set \<Rightarrow> nat set" where
  "step (pthread_create i a) S = insert i S"
| "step (pthread_join i) S = S - {i}"
| "step (check_res i) S = S"

definition running :: "event list \<Rightarrow> nat set" where
  "running tr = fold step tr {}"

text \<open>The steps in which the orchestrating thread reads an outcome.\<close>

fun is_check :: "event \<Rightarrow> bool" where
  "is_check (check_res i) = True"
| "is_check _ = False"

section \<open>Example inputs\<close>

definition ok_dev :: dev_env where
  "ok_dev = \<lparr>dqbuf_ret = 0, to_argb_ret = 0, qbuf_ret = 0, to_raw_ret = 0\<rparr>"

definition cam_2x1 :: "string \<Rightarrow> int \<Rightarrow> CameraObject" where
  "cam_2x1 path f =
     \<lparr>device = path, width = 2, height = 1, fps = 30, format = None, fourcc = 0,
      n_buffers = 4, fd = f\<rparr>"

definition cams2 :: "CameraObject list" where
  "cams2 = [cam_2x1 ''/dev/video0'' 3, cam_2x1 ''/dev/video1'' 4]"

definition sys2 :: camsys where
  "sys2 = \<lparr>cameras = Some cams2, sys_width = Some 2, sys_height = Some 1\<rparr>"

definition world_ok :: world where
  "world_ok = \<lparr>array_ok = True, devs = (\<lambda>i. ok_dev)\<rparr>"

definition cam_vga :: "string \<Rightarrow> int \<Rightarrow> CameraObject" where
  "cam_vga path f =
     \<lparr>device = path, width = 640, height = 480, fps = 30, format = Some ''YUYV'',
      fourcc = 0x56595559, n_buffers = 4, fd = f\<rparr>"

definition sys_vga3 :: camsys where
  "sys_vga3 =
     \<lparr>cameras = Some [cam_vga ''/dev/video0'' 3, cam_vga ''/dev/video1'' 4, cam_vga ''/dev/video2'' 5],
      sys_width = Some 640, sys_height = Some 480\<rparr>"

definition sys_huge :: camsys where
  "sys_huge = \<lparr>cameras = Some cams2, sys_width = Some 32768, sys_height = Some 32768\<rparr>"

definition conv1_fails :: dev_env where
  "conv1_fails = \<lparr>dqbuf_ret = 0, to_argb_ret = - 1, qbuf_ret = 0, to_raw_ret = 0\<rparr>"

definition world_fail1 :: world where
  "world_fail1 = \<lparr>array_ok = True, devs = (\<lambda>i. if i = 1 then conv1_fails else ok_dev)\<rparr>"

definition sys_1x1 :: camsys where
  "sys_1x1 = \<lparr>cameras = Some cams2, sys_width = Some 1, sys_height = Some 1\<rparr>"

definition sys_empty :: camsys where
  "sys_empty = \<lparr>cameras = Some [], sys_width = Some 2, sys_height = Some 1\<rparr>"

definition fresh_camera :: CameraObject where
  "fresh_camera =
     \<lparr>device = [], width = 0, height = 0, fps = 0, format = None, fourcc = 0, n_buffers = 0, fd = 0\<rparr>"

definition args_rgb3 :: init_args where
  "args_rgb3 = \<lparr>arg_device = ''/dev/video0'', arg_size = Some (640, 480), arg_fps = None,
     arg_format = Some ''rgb3''\<rparr>"

definition args_rgb :: init_args where
  "args_rgb = \<lparr>arg_device = ''/dev/video0'', arg_size = None, arg_fps = None,
     arg_format = Some ''rgb''\<rparr>"

section \<open>Facts about the loops and the worker\<close>

lemma mul_int_Inr: "INT_MIN \<le> a * b \<Longrightarrow> a * b \<le> INT_MAX \<Longrightarrow> mul_int a b = Inr (a * b)"
  by (simp add: mul_int_def)

lemma frame_ok_bounds:
  assumes "frame_ok c"
  shows "0 < width c * height c" "width c * height c * 4 \<le> INT_MAX"
    "\<bar>width c\<bar> \<le> width c * height c" "\<bar>height c\<bar> \<le> width c * height c"
proof -
  show p: "0 < width c * height c" using assms by (simp add: frame_ok_def mult.commute)
  show "width c * height c * 4 \<le> INT_MAX" using assms by (simp add: frame_ok_def mult.commute)
  have "\<bar>width c\<bar> * \<bar>height c\<bar> = width c * height c" using p by (simp add: abs_mult[symmetric])
  moreover have "1 \<le> \<bar>height c\<bar>" "1 \<le> \<bar>width c\<bar>" using p by (auto simp: zero_less_mult_iff)
  ultimately show "\<bar>width c\<bar> \<le> width c * height c" "\<bar>height c\<bar> \<le> width c * height c"
    by (metis abs_ge_zero mult.right_neutral mult_left_mono, metis abs_ge_zero mult.left_neutral mult_right_mono)
qed

lemma argb_size_ok: "frame_ok c \<Longrightarrow> argb_size c = Inr (width c * height c * 4)"
  using frame_ok_bounds[of c]
  by (simp add: argb_size_def mul_int_def INT_MIN_def INT_MAX_def mult.commute)

lemma argb_size_iff: "(\<exists>sz. argb_size c = Inr sz) \<longleftrightarrow> frame_ok c"
  by (auto simp: argb_size_def mul_int_def frame_ok_def INT_MIN_def INT_MAX_def split: if_splits sum.splits)

lemma stride_ok:
  assumes "frame_ok c"
  shows "mul_int (width c) 4 = Inr (width c * 4)" "mul_int (width c) 3 = Inr (width c * 3)"
  using frame_ok_bounds[OF assms] by (auto simp: mul_int_def INT_MIN_def INT_MAX_def)

lemma worker_eq:
  assumes "frame_ok (cam a)"
  shows "cam_read_worker d a =
     Inr (a\<lparr>res := outcome_code d\<rparr>, take (stages_run d) (cycle_stages a))"
  using assms
  by (simp add: cam_read_worker_def argb_size_ok stride_ok first_failed_def stage_fails_def
      cycle_stages_def outcome_code_def stages_run_def Let_def)

lemma worker_defined_iff: "(\<exists>r. cam_read_worker d a = Inr r) \<longleftrightarrow> frame_ok (cam a)"
proof
  assume "\<exists>r. cam_read_worker d a = Inr r"
  then have "\<exists>sz. argb_size (cam a) = Inr sz"
    by (auto simp: cam_read_worker_def Let_def split: sum.splits)
  then show "frame_ok (cam a)" by (simp add: argb_size_iff)
next
  assume "frame_ok (cam a)" then show "\<exists>r. cam_read_worker d a = Inr r" by (simp add: worker_eq)
qed

lemma prepare_args_Inr:
  "prepare_args cams i sz = Inr args \<Longrightarrow>
     length args = length cams \<and>
     (\<forall>k<length cams. args ! k = \<lparr>cam = cams ! k, dst = int (i + k) * sz, res = 0\<rparr>)"
proof (induction cams arbitrary: i args)
  case Nil
  then show ?case by simp
next
  case (Cons c cs)
  from Cons.prems obtain off rest where
    off: "mul_int (int i) sz = Inr off" and rest: "prepare_args cs (Suc i) sz = Inr rest"
    and args: "args = \<lparr>cam = c, dst = off, res = 0\<rparr> # rest"
    by (auto split: sum.splits)
  have off_eq: "off = int i * sz" using off by (auto simp: mul_int_def split: if_splits)
  from Cons.IH[OF rest] have len: "length rest = length cs"
    and nth: "\<And>k. k < length cs \<Longrightarrow> rest ! k = \<lparr>cam = cs ! k, dst = int (Suc i + k) * sz, res = 0\<rparr>"
    by auto
  show ?case
  proof (intro conjI allI impI)
    show "length args = length (c # cs)" using args len by simp
  next
    fix k assume k: "k < length (c # cs)"
    show "args ! k = \<lparr>cam = (c # cs) ! k, dst = int (i + k) * sz, res = 0\<rparr>"
    proof (cases k)
      case 0
      then show ?thesis using args off_eq by simp
    next
      case (Suc m)
      then have "m < length cs" using k by simp
      from nth[OF this] show ?thesis using args Suc by simp
    qed
  qed
qed

lemma run_workers_Inr:
  "run_workers dv i args = Inr rs \<Longrightarrow>
     length rs = length args \<and>
     (\<forall>k<length args. cam_read_worker (dv (i + k)) (args ! k) = Inr (rs ! k))"
proof (induction args arbitrary: i rs)
  case Nil
  then show ?case by simp
next
  case (Cons a as)
  from Cons.prems obtain r rest where
    r: "cam_read_worker (dv i) a = Inr r" and rest: "run_workers dv (Suc i) as = Inr rest"
    and rs: "rs = r # rest"
    by (auto split: sum.splits)
  from Cons.IH[OF rest] have len: "length rest = length as"
    and nth: "\<And>k. k < length as \<Longrightarrow> cam_read_worker (dv (Suc i + k)) (as ! k) = Inr (rest ! k)"
    by auto
  show ?case
  proof (intro conjI allI impI)
    show "length rs = length (a # as)" using rs len by simp
  next
    fix k assume k: "k < length (a # as)"
    show "cam_read_worker (dv (i + k)) ((a # as) ! k) = Inr (rs ! k)"
    proof (cases k)
      case 0
      then show ?thesis using r rs by simp
    next
      case (Suc m)
      then have "m < length as" using k by simp
      from nth[OF this] show ?thesis using rs Suc by simp
    qed
  qed
qed

lemma first_error_None: "first_error i as = None \<longleftrightarrow> (\<forall>a\<in>set as. res a = 0)"
  by (induction as arbitrary: i) auto

lemma first_error_Some:
  "first_error i as = Some (k, r) \<Longrightarrow>
     i \<le> k \<and> k - i < length as \<and> res (as ! (k - i)) = r \<and> r \<noteq> 0 \<and> (\<forall>j<k - i. res (as ! j) = 0)"
proof (induction as arbitrary: i)
  case Nil
  then show ?case by simp
next
  case (Cons a as)
  show ?case
  proof (cases "res a = 0")
    case False
    then show ?thesis using Cons.prems by auto
  next
    case True
    then have "first_error (Suc i) as = Some (k, r)" using Cons.prems by simp
    from Cons.IH[OF this] have ih: "Suc i \<le> k" "k - Suc i < length as" "res (as ! (k - Suc i)) = r"
      "r \<noteq> 0" "\<forall>j<k - Suc i. res (as ! j) = 0" by auto
    then have ki: "k - i = Suc (k - Suc i)" by simp
    show ?thesis
    proof (intro conjI allI impI)
      fix j assume "j < k - i"
      then show "res ((a # as) ! j) = 0" using True ih(5) ki by (cases j) auto
    qed (use ih ki in auto)
  qed
qed

lemma examined_None:
  "first_error i as = None \<Longrightarrow> examined i as = map check_res [i..<i + length as]"
proof (induction as arbitrary: i)
  case Nil
  then show ?case by simp
next
  case (Cons a as)
  then have r: "res a = 0" and fe: "first_error (Suc i) as = None" by (auto split: if_splits)
  have "[i..<i + length (a # as)] = i # [Suc i..<Suc i + length as]"
    by (simp add: upt_conv_Cons del: upt_Suc)
  then show ?case using Cons.IH[OF fe] r by simp
qed

lemma examined_Some:
  "first_error i as = Some (k, r) \<Longrightarrow> examined i as = map check_res [i..<Suc k]"
proof (induction as arbitrary: i)
  case Nil
  then show ?case by simp
next
  case (Cons a as)
  show ?case
  proof (cases "res a = 0")
    case False
    then show ?thesis using Cons.prems by auto
  next
    case True
    then have fe: "first_error (Suc i) as = Some (k, r)" using Cons.prems by simp
    then have "Suc i \<le> k" using first_error_Some by blast
    then have "[i..<Suc k] = i # [Suc i..<Suc k]"
      by (simp add: upt_conv_Cons del: upt_Suc)
    then show ?thesis using Cons.IH[OF fe] True by simp
  qed
qed

lemma camsys_read_cases:
  "(\<exists>e. camsys_read wd cs = failed e) \<or>
   (\<exists>cams W H arr args rs.
      cameras cs = Some cams \<and> cams \<noteq> [] \<and> sys_width cs = Some W \<and> sys_height cs = Some H \<and>
      PyArray_SimpleNew wd [int (length cams), H, W, 3] NPY_UINT8 = Some arr \<and>
      prepare_args cams 0 (W * H * 3) = Inr args \<and>
      run_workers (devs wd) 0 args = Inr rs \<and>
      camsys_read wd cs = run_and_check arr args rs)"
  by (auto simp: camsys_read_def Let_def mul_int_def split: option.splits sum.splits if_splits)

lemma PyArray_SimpleNew_Some:
  "PyArray_SimpleNew wd ds t = Some arr \<Longrightarrow> arr = \<lparr>dims = ds, typenum = t\<rparr> \<and> (\<forall>d\<in>set ds. 0 \<le> d)"
  by (auto simp: PyArray_SimpleNew_def list_all_iff split: if_splits)

lemma failed_simps [simp]:
  "ret (failed e) = Inl e" "trace (failed e) = []" "cam_args (failed e) = []" "work (failed e) = []"
  by (simp_all add: failed_def)

lemma camsys_read_reached:
  assumes "trace (camsys_read wd cs) \<noteq> [] \<or> cam_args (camsys_read wd cs) \<noteq> []
             \<or> work (camsys_read wd cs) \<noteq> []"
  obtains cams W H args rs where
    "cameras cs = Some cams" "cams \<noteq> []" "sys_width cs = Some W" "sys_height cs = Some H"
    "0 \<le> W" "0 \<le> H" "array_ok wd"
    "length args = length cams" "length rs = length cams"
    "\<forall>k<length cams. args ! k = \<lparr>cam = cams ! k, dst = int k * (W * H * 3), res = 0\<rparr>"
    "\<forall>k<length cams. frame_ok (cams ! k)"
    "\<forall>k<length cams.
       rs ! k = ((args ! k)\<lparr>res := outcome_code (devs wd k)\<rparr>,
                 take (stages_run (devs wd k)) (cycle_stages (args ! k)))"
    "camsys_read wd cs =
       run_and_check \<lparr>dims = [int (length cams), H, W, 3], typenum = NPY_UINT8\<rparr> args rs"
proof -
  from assms camsys_read_cases[of wd cs] obtain cams W H arr args rs where
    c: "cameras cs = Some cams" "cams \<noteq> []" "sys_width cs = Some W" "sys_height cs = Some H"
    and arr: "PyArray_SimpleNew wd [int (length cams), H, W, 3] NPY_UINT8 = Some arr"
    and pa: "prepare_args cams 0 (W * H * 3) = Inr args"
    and rw: "run_workers (devs wd) 0 args = Inr rs"
    and eq: "camsys_read wd cs = run_and_check arr args rs"
    by auto
  from PyArray_SimpleNew_Some[OF arr] have arr_eq: "arr = \<lparr>dims = [int (length cams), H, W, 3], typenum = NPY_UINT8\<rparr>"
    and nn: "0 \<le> W" "0 \<le> H" by auto
  from arr have ok: "array_ok wd" by (auto simp: PyArray_SimpleNew_def split: if_splits)
  from prepare_args_Inr[OF pa] have la: "length args = length cams"
    and an: "\<And>k. k < length cams \<Longrightarrow> args ! k = \<lparr>cam = cams ! k, dst = int k * (W * H * 3), res = 0\<rparr>"
    by auto
  from run_workers_Inr[OF rw] have lr: "length rs = length args"
    and rn: "\<And>k. k < length args \<Longrightarrow> cam_read_worker (devs wd k) (args ! k) = Inr (rs ! k)"
    by auto
  have fo: "frame_ok (cams ! k)" if "k < length cams" for k
  proof -
    have "\<exists>r. cam_read_worker (devs wd k) (args ! k) = Inr r" using rn that la by auto
    then have "frame_ok (cam (args ! k))" using worker_defined_iff by blast
    then show ?thesis using an[OF that] by simp
  qed
  have rk: "rs ! k = ((args ! k)\<lparr>res := outcome_code (devs wd k)\<rparr>,
                 take (stages_run (devs wd k)) (cycle_stages (args ! k)))" if "k < length cams" for k
  proof -
    have "frame_ok (cam (args ! k))" using fo[OF that] an[OF that] by simp
    from worker_eq[OF this, of "devs wd k"] rn[of k] that la show ?thesis by simp
  qed
  show ?thesis
  proof (rule that[OF c nn ok la])
    show "length rs = length cams" using lr la by simp
    show "\<forall>k<length cams. args ! k = \<lparr>cam = cams ! k, dst = int k * (W * H * 3), res = 0\<rparr>"
      using an by blast
    show "\<forall>k<length cams. frame_ok (cams ! k)" using fo by blast
    show "\<forall>k<length cams.
       rs ! k = ((args ! k)\<lparr>res := outcome_code (devs wd k)\<rparr>,
                 take (stages_run (devs wd k)) (cycle_stages (args ! k)))" using rk by blast
    show "camsys_read wd cs =
       run_and_check \<lparr>dims = [int (length cams), H, W, 3], typenum = NPY_UINT8\<rparr> args rs"
      using eq arr_eq by simp
  qed
qed

lemma worker_writes_stages:
  "worker_writes (take n (cycle_stages a)) \<subseteq>
     {dst a ..< dst a + height (cam a) * width (cam a) * 3}"
proof -
  have "worker_writes (take n (cycle_stages a)) \<subseteq> worker_writes (cycle_stages a)"
    unfolding worker_writes_def using set_take_subset[of n "cycle_stages a"] by blast
  also have "worker_writes (cycle_stages a) = {dst a ..< dst a + height (cam a) * width (cam a) * 3}"
    by (simp add: worker_writes_def cycle_stages_def Let_def mult.assoc)
  finally show ?thesis .
qed

lemma slices_lt:
  fixes sz :: int
  assumes "0 \<le> sz" "i < j"
  shows "{int i * sz ..< int i * sz + sz} \<inter> {int j * sz ..< int j * sz + sz} = {}"
proof -
  have "int i + 1 \<le> int j" using assms(2) by simp
  then have "(int i + 1) * sz \<le> int j * sz" using assms(1) by (rule mult_right_mono)
  then have "int i * sz + sz \<le> int j * sz" by (simp add: algebra_simps)
  then show ?thesis by auto
qed

lemma slices_disjoint:
  fixes sz :: int
  assumes "0 \<le> sz" "i \<noteq> j"
  shows "{int i * sz ..< int i * sz + sz} \<inter> {int j * sz ..< int j * sz + sz} = {}"
proof (cases "i < j")
  case True
  then show ?thesis using slices_lt[OF assms(1)] by blast
next
  case False
  then have "j < i" using assms(2) by simp
  from slices_lt[OF assms(1) this] show ?thesis by blast
qed

lemma run_and_check_simps [simp]:
  "cam_args (run_and_check arr args rs) = map fst rs"
  "work (run_and_check arr args rs) = map snd rs"
  "trace (run_and_check arr args rs) =
     map (\<lambda>i. pthread_create i (args ! i)) [0..<length args]
       @ map pthread_join [0..<length args] @ examined 0 (map fst rs)"
  by (simp_all add: run_and_check_def)

lemma reached_cam_args:
  assumes "cam_args (camsys_read wd cs) \<noteq> []"
  obtains cams W H args rs where
    "cameras cs = Some cams" "cams \<noteq> []" "sys_width cs = Some W" "sys_height cs = Some H"
    "0 \<le> W" "0 \<le> H" "array_ok wd"
    "length args = length cams" "length rs = length cams"
    "\<forall>k<length cams. args ! k = \<lparr>cam = cams ! k, dst = int k * (W * H * 3), res = 0\<rparr>"
    "\<forall>k<length cams. frame_ok (cams ! k)"
    "\<forall>k<length cams.
       rs ! k = ((args ! k)\<lparr>res := outcome_code (devs wd k)\<rparr>,
                 take (stages_run (devs wd k)) (cycle_stages (args ! k)))"
    "camsys_read wd cs =
       run_and_check \<lparr>dims = [int (length cams), H, W, 3], typenum = NPY_UINT8\<rparr> args rs"
proof -
  from assms have "trace (camsys_read wd cs) \<noteq> [] \<or> cam_args (camsys_read wd cs) \<noteq> []
      \<or> work (camsys_read wd cs) \<noteq> []" by simp
  then show ?thesis using that by (rule camsys_read_reached)
qed

lemma run_and_check_ret:
  "ret (run_and_check arr args rs) =
     (case first_error 0 (map fst rs) of
        Some (i, r) \<Rightarrow>
          Inl (PyErr (RuntimeError
            (''Reading image from camera '' @ fmt_i (int i) @ '' failed: '' @ fmt_i r @ [newline])))
      | None \<Rightarrow> Inr arr)"
  by (simp add: run_and_check_def)

lemma first_error_ex:
  "\<exists>a\<in>set as. res a \<noteq> 0 \<Longrightarrow> \<exists>k r. first_error i as = Some (k, r)"
  using first_error_None[of i as] by (cases "first_error i as") auto

lemma first_failed_None:
  "first_failed d = None \<longleftrightarrow>
     dqbuf_ret d \<noteq> - 1 \<and> to_argb_ret d = 0 \<and> qbuf_ret d \<noteq> - 1 \<and> to_raw_ret d = 0"
  by (simp add: first_failed_def stage_fails_def)

lemma first_failed_Some:
  "first_failed d = Some k \<longleftrightarrow>
     (k = 1 \<and> dqbuf_ret d = - 1) \<or>
     (k = 2 \<and> dqbuf_ret d \<noteq> - 1 \<and> to_argb_ret d \<noteq> 0) \<or>
     (k = 3 \<and> dqbuf_ret d \<noteq> - 1 \<and> to_argb_ret d = 0 \<and> qbuf_ret d = - 1) \<or>
     (k = 4 \<and> dqbuf_ret d \<noteq> - 1 \<and> to_argb_ret d = 0 \<and> qbuf_ret d \<noteq> - 1 \<and> to_raw_ret d \<noteq> 0)"
  by (auto simp: first_failed_def stage_fails_def)

lemma first_failed_first:
  "first_failed d = Some k \<Longrightarrow>
     1 \<le> k \<and> k \<le> 4 \<and> stage_fails d k \<and> (\<forall>j. 1 \<le> j \<and> j < k \<longrightarrow> \<not> stage_fails d j)"
  unfolding first_failed_Some
  by (elim disjE conjE) (auto simp: stage_fails_def)

lemma distinct_cycle_stages: "distinct (cycle_stages a)"
  by (simp add: cycle_stages_def Let_def)

lemma prepare_args_ok:
  "0 \<le> sz \<Longrightarrow> (int i + int (length cams)) * sz \<le> INT_MAX \<Longrightarrow>
     \<exists>args. prepare_args cams i sz = Inr args"
proof (induction cams arbitrary: i)
  case Nil
  then show ?case by simp
next
  case (Cons c cs)
  have le: "int i * sz \<le> (int i + int (length (c # cs))) * sz"
    using Cons.prems(1) by (intro mult_right_mono) auto
  have "0 \<le> int i * sz" using Cons.prems(1) by simp
  moreover have "INT_MIN \<le> 0" by (simp add: INT_MIN_def)
  ultimately have "INT_MIN \<le> int i * sz" by simp
  moreover have "int i * sz \<le> INT_MAX" using le Cons.prems(2) by (rule order_trans)
  ultimately have m: "mul_int (int i) sz = Inr (int i * sz)" by (rule mul_int_Inr)
  have "(int (Suc i) + int (length cs)) * sz \<le> INT_MAX" using Cons.prems(2) by (simp add: algebra_simps)
  from Cons.IH[OF Cons.prems(1) this] obtain rest where "prepare_args cs (Suc i) sz = Inr rest"
    by blast
  then show ?case using m by simp
qed

lemma run_workers_ok:
  "\<forall>a\<in>set args. frame_ok (cam a) \<Longrightarrow> \<exists>rs. run_workers dv i args = Inr rs"
proof (induction args arbitrary: i)
  case Nil
  then show ?case by simp
next
  case (Cons a as)
  then obtain rs where "run_workers dv (Suc i) as = Inr rs" by fastforce
  moreover have "frame_ok (cam a)" using Cons.prems by simp
  ultimately show ?case by (simp add: worker_eq)
qed

lemma camsys_read_defined:
  assumes "cameras cs = Some cams" "cams \<noteq> []" "sys_width cs = Some W" "sys_height cs = Some H"
    and "0 \<le> W" "0 \<le> H" "array_ok wd"
    and "int (length cams) * (W * H * 3) \<le> INT_MAX"
    and "\<forall>c\<in>set cams. frame_ok c"
  shows "trace (camsys_read wd cs) \<noteq> [] \<and> length (cam_args (camsys_read wd cs)) = length cams"
proof -
  let ?sz = "W * H * 3"
  have sz: "0 \<le> ?sz" using assms(5,6) by simp
  have n: "1 \<le> int (length cams)" using assms(2) by (cases cams) auto
  have "1 * ?sz \<le> int (length cams) * ?sz" using n sz by (rule mult_right_mono)
  then have "?sz \<le> int (length cams) * ?sz" by (simp only: mult_1)
  then have b3: "?sz \<le> INT_MAX" using assms(8) by (rule order_trans)
  have wh: "0 \<le> W * H" using assms(5,6) by simp
  have "W * H * 1 \<le> W * H * 3" using wh by (intro mult_left_mono) auto
  then have "W * H \<le> ?sz" by (simp only: mult_1_right)
  then have b1: "W * H \<le> INT_MAX" using b3 by (rule order_trans)
  have z: "INT_MIN \<le> 0" by (simp add: INT_MIN_def)
  have m1: "mul_int W H = Inr (W * H)"
    using order_trans[OF z wh] b1 by (rule mul_int_Inr)
  have m2: "mul_int (W * H) 3 = Inr ?sz"
    using order_trans[OF z sz] b3 by (rule mul_int_Inr)
  have arr: "PyArray_SimpleNew wd [int (length cams), H, W, 3] NPY_UINT8 =
      Some \<lparr>dims = [int (length cams), H, W, 3], typenum = NPY_UINT8\<rparr>"
    using assms(5,6,7) by (simp add: PyArray_SimpleNew_def)
  from prepare_args_ok[OF sz, of 0 cams] assms(8) obtain args where
    pa: "prepare_args cams 0 ?sz = Inr args" by auto
  from prepare_args_Inr[OF pa] have la: "length args = length cams"
    and an: "\<forall>k<length cams. args ! k = \<lparr>cam = cams ! k, dst = int (0 + k) * ?sz, res = 0\<rparr>" by auto
  have "\<forall>a\<in>set args. frame_ok (cam a)"
  proof
    fix a assume "a \<in> set args"
    then obtain k where k: "k < length args" "a = args ! k" by (auto simp: in_set_conv_nth)
    then have "cam a = cams ! k" using an la by simp
    then show "frame_ok (cam a)" using assms(9) k(1) la by simp
  qed
  from run_workers_ok[OF this, of "devs wd" 0] obtain rs where
    rw: "run_workers (devs wd) 0 args = Inr rs" by blast
  from run_workers_Inr[OF rw] have lr: "length rs = length args" by simp
  have eq: "camsys_read wd cs =
      run_and_check \<lparr>dims = [int (length cams), H, W, 3], typenum = NPY_UINT8\<rparr> args rs"
    using assms(1-4) n m1 m2 arr pa rw by (simp add: camsys_read_def Let_def)
  show ?thesis unfolding eq using lr la assms(2) by simp
qed

section \<open>Evaluation of the example inputs\<close>

lemma cam_args_ok2:
  "cam_args (camsys_read world_ok sys2) =
     [\<lparr>cam = cam_2x1 ''/dev/video0'' 3, dst = 0, res = 0\<rparr>,
      \<lparr>cam = cam_2x1 ''/dev/video1'' 4, dst = 6, res = 0\<rparr>]"
  by code_simp

lemma cam_args_fail1:
  "cam_args (camsys_read world_fail1 sys2) =
     [\<lparr>cam = cam_2x1 ''/dev/video0'' 3, dst = 0, res = 0\<rparr>,
      \<lparr>cam = cam_2x1 ''/dev/video1'' 4, dst = 6, res = 2\<rparr>]"
  by code_simp

lemma ret_fail1:
  "ret (camsys_read world_fail1 sys2) =
     Inl (PyErr (RuntimeError (''Reading image from camera 1 failed: 2'' @ [newline])))"
  by code_simp

lemma trace_fail1:
  "trace (camsys_read world_fail1 sys2) =
     [pthread_create 0 \<lparr>cam = cam_2x1 ''/dev/video0'' 3, dst = 0, res = 0\<rparr>,
      pthread_create 1 \<lparr>cam = cam_2x1 ''/dev/video1'' 4, dst = 6, res = 0\<rparr>,
      pthread_join 0, pthread_join 1] @ check_res 0 # [check_res 1]"
  by code_simp

text \<open>
  The examples of the spec: three cameras of 640 by 480, all succeeding, and the same with
  the first conversion of the camera at index 1 failing.
\<close>

lemma ret_vga3_ok:
  "ret (camsys_read world_ok sys_vga3) = Inr \<lparr>dims = [3, 480, 640, 3], typenum = NPY_UINT8\<rparr>"
  by code_simp

lemma dst_vga3_ok:
  "map dst (cam_args (camsys_read world_ok sys_vga3)) = [0, 921600, 1843200]"
  by code_simp

lemma ret_vga3_fail1:
  "ret (camsys_read world_fail1 sys_vga3) =
     Inl (PyErr (RuntimeError (''Reading image from camera 1 failed: 2'' @ [newline])))"
  by code_simp

text \<open>
  A capture system whose \<open>width * height * 3\<close> does not fit an \<open>int\<close>: the product
  overflows before any thread is created.
\<close>

lemma ret_huge:
  "camsys_read world_ok sys_huge = failed UndefinedBehaviour"
  by code_simp

lemma work_sys_1x1:
  "work (camsys_read world_ok sys_1x1) =
     [[DQBUF, ConvertToARGB 8 8 2 1, QBUF, ARGBToRAW 0 6 2 1],
      [DQBUF, ConvertToARGB 8 8 2 1, QBUF, ARGBToRAW 3 6 2 1]]"
  by code_simp

section \<open>The slices of a batch read\<close>

text \<open>
  Claim C1. In every batch read that reaches the creation of the threads, over \<open>N\<close>
  cameras that share the width \<open>W\<close> and the height \<open>H\<close> of the capture system, the thread
  at index \<open>i\<close> is created with a destination that starts at byte offset
  \<open>i \<times> H \<times> W \<times> 3\<close>; its slice is the \<open>H \<times> W \<times> 3\<close> bytes from there; the bytes its worker
  addresses lie in that slice; and the slices, hence the bytes addressed, of two distinct
  indices have no byte in common.
\<close>

theorem camsys_read_slices:
  assumes cams: "cameras cs = Some cams"
    and W: "sys_width cs = Some W" and H: "sys_height cs = Some H"
    and share: "\<forall>c\<in>set cams. width c = W \<and> height c = H"
    and reach: "trace (camsys_read wd cs) \<noteq> []"
  shows "\<exists>args. length args = length cams \<and>
      trace (camsys_read wd cs) =
        map (\<lambda>i. pthread_create i (args ! i)) [0..<length cams]
          @ map pthread_join [0..<length cams]
          @ examined 0 (cam_args (camsys_read wd cs)) \<and>
      (\<forall>i<length cams.
         cam (args ! i) = cams ! i \<and>
         dst (args ! i) = int i * H * W * 3 \<and>
         slice (H * W * 3) (args ! i) = {int i * H * W * 3 ..< int i * H * W * 3 + H * W * 3} \<and>
         worker_writes (work (camsys_read wd cs) ! i) \<subseteq> slice (H * W * 3) (args ! i)) \<and>
      (\<forall>i<length cams. \<forall>j<length cams. i \<noteq> j \<longrightarrow>
         slice (H * W * 3) (args ! i) \<inter> slice (H * W * 3) (args ! j) = {} \<and>
         worker_writes (work (camsys_read wd cs) ! i)
           \<inter> worker_writes (work (camsys_read wd cs) ! j) = {})"
proof -
  from reach have "trace (camsys_read wd cs) \<noteq> [] \<or> cam_args (camsys_read wd cs) \<noteq> []
      \<or> work (camsys_read wd cs) \<noteq> []" by simp
  then obtain cams' W' H' args rs where r:
    "cameras cs = Some cams'" "cams' \<noteq> []" "sys_width cs = Some W'" "sys_height cs = Some H'"
    "0 \<le> W'" "0 \<le> H'" "array_ok wd"
    "length args = length cams'" "length rs = length cams'"
    "\<forall>k<length cams'. args ! k = \<lparr>cam = cams' ! k, dst = int k * (W' * H' * 3), res = 0\<rparr>"
    "\<forall>k<length cams'. frame_ok (cams' ! k)"
    "\<forall>k<length cams'.
       rs ! k = ((args ! k)\<lparr>res := outcome_code (devs wd k)\<rparr>,
                 take (stages_run (devs wd k)) (cycle_stages (args ! k)))"
    "camsys_read wd cs =
       run_and_check \<lparr>dims = [int (length cams'), H', W', 3], typenum = NPY_UINT8\<rparr> args rs"
    by (rule camsys_read_reached)
  from r(1,3,4) cams W H have [simp]: "cams' = cams" "W' = W" "H' = H" by simp_all
  let ?sz = "H * W * 3"
  have sz: "0 \<le> ?sz" using r(5,6) by simp
  have ak: "args ! k = \<lparr>cam = cams ! k, dst = int k * ?sz, res = 0\<rparr>" if "k < length cams" for k
    using r(10) that by (simp add: mult.commute mult.left_commute)
  have sl: "slice ?sz (args ! k) = {int k * ?sz ..< int k * ?sz + ?sz}" if "k < length cams" for k
    using ak[OF that] by (simp add: slice_def)
  have wk: "worker_writes (work (camsys_read wd cs) ! k) \<subseteq> slice ?sz (args ! k)"
    if k: "k < length cams" for k
  proof -
    have "cams ! k \<in> set cams" using k by simp
    then have wh: "width (cams ! k) = W" "height (cams ! k) = H" using share by auto
    have "work (camsys_read wd cs) ! k = take (stages_run (devs wd k)) (cycle_stages (args ! k))"
      using r(9,12,13) k by simp
    moreover have "worker_writes (take (stages_run (devs wd k)) (cycle_stages (args ! k)))
        \<subseteq> {dst (args ! k) ..< dst (args ! k) + height (cam (args ! k)) * width (cam (args ! k)) * 3}"
      by (rule worker_writes_stages)
    ultimately show ?thesis using ak[OF k] wh by (simp add: slice_def)
  qed
  have dj: "slice ?sz (args ! i) \<inter> slice ?sz (args ! j) = {}"
    if "i < length cams" "j < length cams" "i \<noteq> j" for i j
    using sl[OF that(1)] sl[OF that(2)] slices_disjoint[OF sz that(3)] by simp
  have tr: "trace (camsys_read wd cs) =
        map (\<lambda>i. pthread_create i (args ! i)) [0..<length cams]
          @ map pthread_join [0..<length cams]
          @ examined 0 (cam_args (camsys_read wd cs))"
    using r(8,13) by simp
  show ?thesis
  proof (intro exI[of _ args] conjI allI impI)
    show "length args = length cams" using r(8) by simp
    show "trace (camsys_read wd cs) =
        map (\<lambda>i. pthread_create i (args ! i)) [0..<length cams]
          @ map pthread_join [0..<length cams]
          @ examined 0 (cam_args (camsys_read wd cs))" by (rule tr)
  next
    fix i assume i: "i < length cams"
    show "cam (args ! i) = cams ! i" using ak[OF i] by simp
    show "dst (args ! i) = int i * H * W * 3" using ak[OF i] by (simp add: mult.assoc)
    show "slice ?sz (args ! i) = {int i * H * W * 3 ..< int i * H * W * 3 + ?sz}"
      using sl[OF i] by (simp add: mult.assoc)
    show "worker_writes (work (camsys_read wd cs) ! i) \<subseteq> slice ?sz (args ! i)" by (rule wk[OF i])
  next
    fix i j assume ij: "i < length cams" "j < length cams" "i \<noteq> j"
    show "slice ?sz (args ! i) \<inter> slice ?sz (args ! j) = {}" by (rule dj[OF ij])
    show "worker_writes (work (camsys_read wd cs) ! i)
           \<inter> worker_writes (work (camsys_read wd cs) ! j) = {}"
      using wk[OF ij(1)] wk[OF ij(2)] dj[OF ij] by blast
  qed
qed

theorem camsys_read_slices_witness:
  "cameras sys2 = Some cams2 \<and> sys_width sys2 = Some 2 \<and> sys_height sys2 = Some 1 \<and>
   list_all (\<lambda>c. width c = 2 \<and> height c = 1) cams2 \<and>
   trace (camsys_read world_ok sys2) \<noteq> [] \<and>
   (\<exists>args. length args = length cams2 \<and>
      trace (camsys_read world_ok sys2) =
        map (\<lambda>i. pthread_create i (args ! i)) [0..<length cams2]
          @ map pthread_join [0..<length cams2]
          @ examined 0 (cam_args (camsys_read world_ok sys2)) \<and>
      (\<forall>i<length cams2.
         cam (args ! i) = cams2 ! i \<and>
         dst (args ! i) = int i * 1 * 2 * 3 \<and>
         slice (1 * 2 * 3) (args ! i) = {int i * 1 * 2 * 3 ..< int i * 1 * 2 * 3 + 1 * 2 * 3} \<and>
         worker_writes (work (camsys_read world_ok sys2) ! i) \<subseteq> slice (1 * 2 * 3) (args ! i)) \<and>
      (\<forall>i<length cams2. \<forall>j<length cams2. i \<noteq> j \<longrightarrow>
         slice (1 * 2 * 3) (args ! i) \<inter> slice (1 * 2 * 3) (args ! j) = {} \<and>
         worker_writes (work (camsys_read world_ok sys2) ! i)
           \<inter> worker_writes (work (camsys_read world_ok sys2) ! j) = {}))"
proof -
  have h1: "cameras sys2 = Some cams2" by (simp add: sys2_def)
  have h2: "sys_width sys2 = Some 2" by (simp add: sys2_def)
  have h3: "sys_height sys2 = Some 1" by (simp add: sys2_def)
  have h4: "\<forall>c\<in>set cams2. width c = 2 \<and> height c = 1" by (simp add: cams2_def cam_2x1_def)
  have h5: "trace (camsys_read world_ok sys2) \<noteq> []" by code_simp
  have h4': "list_all (\<lambda>c. width c = 2 \<and> height c = 1) cams2"
    using h4 by (simp add: list_all_iff)
  from camsys_read_slices[OF h1 h2 h3 h4 h5] h1 h2 h3 h4' h5 show ?thesis by blast
qed

section \<open>The requeue after a failed conversion\<close>

lemma requeue_iff:
  assumes "frame_ok (cam a)" "cam_read_worker d a = Inr (a', tr)"
  shows "QBUF \<in> set tr \<longleftrightarrow> dqbuf_ret d \<noteq> - 1 \<and> to_argb_ret d = 0"
proof -
  have tr: "tr = take (stages_run d) (cycle_stages a)" using worker_eq[OF assms(1), of d] assms(2) by simp
  show ?thesis
  proof (cases "first_failed d")
    case None
    then have "dqbuf_ret d \<noteq> - 1 \<and> to_argb_ret d = 0" by (simp add: first_failed_None)
    then show ?thesis using tr None by (simp add: stages_run_def cycle_stages_def Let_def)
  next
    case (Some k)
    then show ?thesis using tr unfolding first_failed_Some
      by (auto simp: stages_run_def cycle_stages_def Let_def Some numeral_3_eq_3 numeral_2_eq_2)
  qed
qed

text \<open>
  Claim C2 asks that the requeue of the dequeued buffer be attempted on every exit path
  after a successful dequeue. The code does not: in every cycle whose dequeue succeeds
  and whose first conversion fails, the worker returns outcome 2 after the two calls
  \<open>DQBUF\<close> and \<open>ConvertToARGB\<close>, and \<open>QBUF\<close> is not among its calls.
\<close>

theorem cam_read_worker_no_requeue:
  assumes "frame_ok (cam a)" and "dqbuf_ret d \<noteq> - 1" and "to_argb_ret d \<noteq> 0"
  shows "\<exists>a' tr. cam_read_worker d a = Inr (a', tr) \<and> res a' = 2 \<and>
     DQBUF \<in> set tr \<and> QBUF \<notin> set tr"
proof -
  have f: "first_failed d = Some 2" using assms(2,3) by (simp add: first_failed_Some)
  have "cam_read_worker d a = Inr (a\<lparr>res := 2\<rparr>, take 2 (cycle_stages a))"
    using worker_eq[OF assms(1), of d] f by (simp add: outcome_code_def stages_run_def)
  then show ?thesis by (simp add: cycle_stages_def Let_def numeral_2_eq_2)
qed

theorem cam_read_worker_no_requeue_witness:
  "frame_ok (cam \<lparr>cam = cam_2x1 ''/dev/video0'' 3, dst = 0, res = 0\<rparr>) \<and>
   dqbuf_ret conv1_fails \<noteq> - 1 \<and> to_argb_ret conv1_fails \<noteq> 0 \<and>
   (\<exists>a' tr. cam_read_worker conv1_fails \<lparr>cam = cam_2x1 ''/dev/video0'' 3, dst = 0, res = 0\<rparr>
        = Inr (a', tr) \<and> res a' = 2 \<and> DQBUF \<in> set tr \<and> QBUF \<notin> set tr) \<and>
   cam_read_worker conv1_fails \<lparr>cam = cam_2x1 ''/dev/video0'' 3, dst = 0, res = 0\<rparr> =
     Inr (\<lparr>cam = cam_2x1 ''/dev/video0'' 3, dst = 0, res = 2\<rparr>, [DQBUF, ConvertToARGB 8 8 2 1])"
proof -
  have h1: "frame_ok (cam \<lparr>cam = cam_2x1 ''/dev/video0'' 3, dst = 0, res = 0\<rparr>)"
    by (simp add: frame_ok_def cam_2x1_def INT_MAX_def)
  have h2: "dqbuf_ret conv1_fails \<noteq> - 1" by (simp add: conv1_fails_def)
  have h3: "to_argb_ret conv1_fails \<noteq> 0" by (simp add: conv1_fails_def)
  have e: "cam_read_worker conv1_fails \<lparr>cam = cam_2x1 ''/dev/video0'' 3, dst = 0, res = 0\<rparr> =
     Inr (\<lparr>cam = cam_2x1 ''/dev/video0'' 3, dst = 0, res = 2\<rparr>, [DQBUF, ConvertToARGB 8 8 2 1])"
    by code_simp
  from cam_read_worker_no_requeue[OF h1 h2 h3] h1 h2 h3 e show ?thesis by blast
qed

section \<open>The first failure of a batch read\<close>

text \<open>
  Claim C3. In every batch read in which a worker leaves a non-zero outcome, there is a
  first index \<open>k\<close> with a non-zero outcome; the orchestrating thread reads the outcomes of
  the indices 0 to \<open>k\<close> in that order and no other; the call returns no array but the
  runtime error whose message holds \<open>k\<close> and the outcome of the device at \<open>k\<close>, which is
  the number of the first stage that failed there.
\<close>

theorem camsys_read_first_failure:
  assumes "\<exists>a\<in>set (cam_args (camsys_read wd cs)). res a \<noteq> 0"
  shows "\<exists>k. k < length (cam_args (camsys_read wd cs)) \<and>
      res (cam_args (camsys_read wd cs) ! k) \<noteq> 0 \<and>
      (\<forall>j<k. res (cam_args (camsys_read wd cs) ! j) = 0) \<and>
      res (cam_args (camsys_read wd cs) ! k) = outcome_code (devs wd k) \<and>
      drop (2 * length (cam_args (camsys_read wd cs))) (trace (camsys_read wd cs))
        = map check_res [0..<Suc k] \<and>
      ret (camsys_read wd cs) =
        Inl (PyErr (RuntimeError
          (''Reading image from camera '' @ fmt_i (int k) @ '' failed: ''
             @ fmt_i (res (cam_args (camsys_read wd cs) ! k)) @ [newline])))"
proof -
  let ?c = "camsys_read wd cs"
  from assms have ne: "cam_args ?c \<noteq> []" by auto
  then obtain cams W H args rs where r:
    "cameras cs = Some cams" "cams \<noteq> []" "sys_width cs = Some W" "sys_height cs = Some H"
    "0 \<le> W" "0 \<le> H" "array_ok wd"
    "length args = length cams" "length rs = length cams"
    "\<forall>k<length cams. args ! k = \<lparr>cam = cams ! k, dst = int k * (W * H * 3), res = 0\<rparr>"
    "\<forall>k<length cams. frame_ok (cams ! k)"
    "\<forall>k<length cams.
       rs ! k = ((args ! k)\<lparr>res := outcome_code (devs wd k)\<rparr>,
                 take (stages_run (devs wd k)) (cycle_stages (args ! k)))"
    "camsys_read wd cs =
       run_and_check \<lparr>dims = [int (length cams), H, W, 3], typenum = NPY_UINT8\<rparr> args rs"
    by (rule reached_cam_args)
  have ca: "cam_args ?c = map fst rs" using r(13) by simp
  from assms first_error_ex[of "cam_args ?c" 0] obtain k v where
    fe: "first_error 0 (cam_args ?c) = Some (k, v)" by blast
  from first_error_Some[OF fe] have k: "k < length (cam_args ?c)" "res (cam_args ?c ! k) = v"
    "v \<noteq> 0" "\<forall>j<k. res (cam_args ?c ! j) = 0" by auto
  have kc: "k < length cams" using k(1) ca r(9) by simp
  have oc: "res (cam_args ?c ! k) = outcome_code (devs wd k)"
    using r(9,12) kc ca by simp
  have tr: "trace ?c = (map (\<lambda>i. pthread_create i (args ! i)) [0..<length args]
       @ map pthread_join [0..<length args]) @ map check_res [0..<Suc k]"
    using r(13) examined_Some[OF fe] ca by simp
  have dr: "drop (2 * length (cam_args ?c)) (trace ?c) = map check_res [0..<Suc k]"
    unfolding tr using ca r(8,9) by (simp del: upt_Suc)
  have rt: "ret ?c = Inl (PyErr (RuntimeError
          (''Reading image from camera '' @ fmt_i (int k) @ '' failed: ''
             @ fmt_i (res (cam_args ?c ! k)) @ [newline])))"
    using fe k(2) ca r(13) by (simp add: run_and_check_ret)
  show ?thesis using k oc dr rt by blast
qed

theorem camsys_read_first_failure_witness:
  "(\<exists>a\<in>set (cam_args (camsys_read world_fail1 sys2)). res a \<noteq> 0) \<and>
   (\<exists>k. k < length (cam_args (camsys_read world_fail1 sys2)) \<and>
      res (cam_args (camsys_read world_fail1 sys2) ! k) \<noteq> 0 \<and>
      drop (2 * length (cam_args (camsys_read world_fail1 sys2))) (trace (camsys_read world_fail1 sys2))
        = map check_res [0..<Suc k] \<and>
      ret (camsys_read world_fail1 sys2) =
        Inl (PyErr (RuntimeError
          (''Reading image from camera '' @ fmt_i (int k) @ '' failed: ''
             @ fmt_i (res (cam_args (camsys_read world_fail1 sys2) ! k)) @ [newline])))) \<and>
   ret (camsys_read world_fail1 sys2) =
     Inl (PyErr (RuntimeError (''Reading image from camera 1 failed: 2'' @ [newline])))"
proof -
  have h: "\<exists>a\<in>set (cam_args (camsys_read world_fail1 sys2)). res a \<noteq> 0"
    by (simp add: cam_args_fail1)
  from camsys_read_first_failure[OF h] h ret_fail1 show ?thesis by blast
qed

section \<open>A batch read over no camera\<close>

text \<open>
  Claim C4. A batch read over an empty sequence of cameras fails with the value error
  \<open>camsys contains no cameras.\<close>; no thread is created and no worker makes a call to a
  device.
\<close>

theorem camsys_read_empty:
  assumes "cameras cs = Some []"
  shows "camsys_read wd cs = failed (PyErr (ValueError ''camsys contains no cameras.'')) \<and>
    ret (camsys_read wd cs) = Inl (PyErr (ValueError ''camsys contains no cameras.'')) \<and>
    trace (camsys_read wd cs) = [] \<and> work (camsys_read wd cs) = []"
  using assms by (simp add: camsys_read_def)

theorem camsys_read_empty_witness:
  "cameras sys_empty = Some [] \<and>
   ret (camsys_read world_ok sys_empty) = Inl (PyErr (ValueError ''camsys contains no cameras.'')) \<and>
   trace (camsys_read world_ok sys_empty) = [] \<and> work (camsys_read world_ok sys_empty) = []"
proof -
  have h: "cameras sys_empty = Some []" by (simp add: sys_empty_def)
  from camsys_read_empty[OF h, of world_ok] h show ?thesis by simp
qed

section \<open>A batch read in which every worker succeeds\<close>

text \<open>
  Claim C5. In every batch read over \<open>N\<close> cameras of a capture system of width \<open>W\<close> and
  height \<open>H\<close> in which the workers ran and each left the outcome 0, \<open>N\<close> is at least 1 and
  the call returns the array it allocated: dimensions \<open>[N, H, W, 3]\<close>, element type
  \<open>NPY_UINT8\<close>.
\<close>

theorem camsys_read_success:
  assumes "cameras cs = Some cams" and "sys_width cs = Some W" and "sys_height cs = Some H"
    and "cam_args (camsys_read wd cs) \<noteq> []"
    and "\<forall>a\<in>set (cam_args (camsys_read wd cs)). res a = 0"
  shows "1 \<le> length cams \<and> length (cam_args (camsys_read wd cs)) = length cams \<and>
    ret (camsys_read wd cs) = Inr \<lparr>dims = [int (length cams), H, W, 3], typenum = NPY_UINT8\<rparr>"
proof -
  let ?c = "camsys_read wd cs"
  from assms(4) obtain cams' W' H' args rs where r:
    "cameras cs = Some cams'" "cams' \<noteq> []" "sys_width cs = Some W'" "sys_height cs = Some H'"
    "0 \<le> W'" "0 \<le> H'" "array_ok wd"
    "length args = length cams'" "length rs = length cams'"
    "\<forall>k<length cams'. args ! k = \<lparr>cam = cams' ! k, dst = int k * (W' * H' * 3), res = 0\<rparr>"
    "\<forall>k<length cams'. frame_ok (cams' ! k)"
    "\<forall>k<length cams'.
       rs ! k = ((args ! k)\<lparr>res := outcome_code (devs wd k)\<rparr>,
                 take (stages_run (devs wd k)) (cycle_stages (args ! k)))"
    "camsys_read wd cs =
       run_and_check \<lparr>dims = [int (length cams'), H', W', 3], typenum = NPY_UINT8\<rparr> args rs"
    by (rule reached_cam_args)
  from r(1,3,4) assms(1-3) have [simp]: "cams' = cams" "W' = W" "H' = H" by simp_all
  have ca: "cam_args ?c = map fst rs" using r(13) by simp
  have "first_error 0 (cam_args ?c) = None" using assms(5) by (simp add: first_error_None)
  then have "ret ?c = Inr \<lparr>dims = [int (length cams), H, W, 3], typenum = NPY_UINT8\<rparr>"
    using r(13) ca by (simp add: run_and_check_ret)
  moreover have "1 \<le> length cams" using r(2) by (cases cams) auto
  moreover have "length (cam_args ?c) = length cams" using ca r(9) by simp
  ultimately show ?thesis by blast
qed

theorem camsys_read_success_witness:
  "cameras sys2 = Some cams2 \<and> sys_width sys2 = Some 2 \<and> sys_height sys2 = Some 1 \<and>
   cam_args (camsys_read world_ok sys2) \<noteq> [] \<and>
   list_all (\<lambda>a. res a = 0) (cam_args (camsys_read world_ok sys2)) \<and>
   ret (camsys_read world_ok sys2) = Inr \<lparr>dims = [2, 1, 2, 3], typenum = NPY_UINT8\<rparr>"
proof -
  have h1: "cameras sys2 = Some cams2" by (simp add: sys2_def)
  have h2: "sys_width sys2 = Some 2" by (simp add: sys2_def)
  have h3: "sys_height sys2 = Some 1" by (simp add: sys2_def)
  have h4: "cam_args (camsys_read world_ok sys2) \<noteq> []" by (simp add: cam_args_ok2)
  have h5: "\<forall>a\<in>set (cam_args (camsys_read world_ok sys2)). res a = 0" by (simp add: cam_args_ok2)
  have h5': "list_all (\<lambda>a. res a = 0) (cam_args (camsys_read world_ok sys2))"
    using h5 by (simp add: list_all_iff)
  have l: "int (length cams2) = 2" by (simp add: cams2_def)
  from camsys_read_success[OF h1 h2 h3 h4 h5] l h1 h2 h3 h4 h5' show ?thesis by simp
qed

section \<open>The capture cycle of a worker\<close>

text \<open>
  Claim C6. A worker whose scratch array can be created attempts the stages in the order
  dequeue, conversion into a scratch array of \<open>width \<times> height \<times> 4\<close> bytes, requeue,
  conversion into the \<open>width \<times> height \<times> 3\<close> bytes from \<open>dst\<close>; it attempts each stage at
  most once and none after the first that fails; its outcome is 0 when none fails and the
  number of the first failed stage otherwise.
\<close>

theorem cam_read_worker_cycle:
  assumes "frame_ok (cam a)"
  shows "\<exists>a' tr. cam_read_worker d a = Inr (a', tr) \<and>
      cam a' = cam a \<and> dst a' = dst a \<and>
      tr = take (stages_run d) (cycle_stages a) \<and> distinct tr \<and>
      cycle_stages a =
        [DQBUF,
         ConvertToARGB (width (cam a) * height (cam a) * 4) (width (cam a) * 4)
           (width (cam a)) (height (cam a)),
         QBUF,
         ARGBToRAW (dst a) (width (cam a) * 3) (width (cam a)) (height (cam a))] \<and>
      worker_writes (cycle_stages a) = {dst a ..< dst a + width (cam a) * height (cam a) * 3} \<and>
      (first_failed d = None \<longrightarrow> res a' = 0 \<and> tr = cycle_stages a) \<and>
      (\<forall>k. first_failed d = Some k \<longrightarrow>
         res a' = int k \<and> 1 \<le> k \<and> k \<le> 4 \<and> stage_fails d k \<and>
         (\<forall>j. 1 \<le> j \<and> j < k \<longrightarrow> \<not> stage_fails d j) \<and>
         length tr = k)"
proof -
  let ?tr = "take (stages_run d) (cycle_stages a)"
  have eq: "cam_read_worker d a = Inr (a\<lparr>res := outcome_code d\<rparr>, ?tr)"
    by (rule worker_eq[OF assms])
  have len: "length (cycle_stages a) = 4" by (simp add: cycle_stages_def Let_def)
  have d: "distinct ?tr" using distinct_cycle_stages by (rule distinct_take)
  have w: "worker_writes (cycle_stages a) = {dst a ..< dst a + width (cam a) * height (cam a) * 3}"
    by (simp add: worker_writes_def cycle_stages_def Let_def mult.commute mult.left_commute)
  have n: "first_failed d = None \<longrightarrow> res (a\<lparr>res := outcome_code d\<rparr>) = 0 \<and> ?tr = cycle_stages a"
    using len by (simp add: outcome_code_def stages_run_def)
  have s: "\<forall>k. first_failed d = Some k \<longrightarrow>
         res (a\<lparr>res := outcome_code d\<rparr>) = int k \<and> 1 \<le> k \<and> k \<le> 4 \<and> stage_fails d k \<and>
         (\<forall>j. 1 \<le> j \<and> j < k \<longrightarrow> \<not> stage_fails d j) \<and> length ?tr = k"
  proof (intro allI impI)
    fix k assume k: "first_failed d = Some k"
    from first_failed_first[OF k] len k
    show "res (a\<lparr>res := outcome_code d\<rparr>) = int k \<and> 1 \<le> k \<and> k \<le> 4 \<and> stage_fails d k \<and>
         (\<forall>j. 1 \<le> j \<and> j < k \<longrightarrow> \<not> stage_fails d j) \<and> length ?tr = k"
      by (simp add: outcome_code_def stages_run_def)
  qed
  show ?thesis
    apply (rule exI[of _ "a\<lparr>res := outcome_code d\<rparr>"])
    apply (rule exI[of _ ?tr])
    using eq d w n s by (simp add: cycle_stages_def Let_def)
qed

theorem cam_read_worker_cycle_witness:
  "frame_ok (cam \<lparr>cam = cam_2x1 ''/dev/video0'' 3, dst = 0, res = 0\<rparr>) \<and>
   first_failed conv1_fails = Some 2 \<and>
   (\<exists>a' tr. cam_read_worker conv1_fails \<lparr>cam = cam_2x1 ''/dev/video0'' 3, dst = 0, res = 0\<rparr>
        = Inr (a', tr) \<and> res a' = 2 \<and> length tr = 2 \<and> stage_fails conv1_fails 2)"
proof -
  have h: "frame_ok (cam \<lparr>cam = cam_2x1 ''/dev/video0'' 3, dst = 0, res = 0\<rparr>)"
    by (simp add: frame_ok_def cam_2x1_def INT_MAX_def)
  have f: "first_failed conv1_fails = Some 2"
    by (simp add: first_failed_def stage_fails_def conv1_fails_def)
  from cam_read_worker_cycle[OF h, of conv1_fails] f h show ?thesis by fastforce
qed

section \<open>The join barrier\<close>

lemma fold_step_create:
  "fold step (map (\<lambda>i. pthread_create i (f i)) [0..<n]) S = S \<union> {0..<n}"
  by (induction n arbitrary: S) (auto simp: atLeastLessThanSuc)

lemma fold_step_join:
  "fold step (map pthread_join [0..<n]) S = S - {0..<n}"
  by (induction n arbitrary: S) (auto simp: atLeastLessThanSuc)

lemma fold_step_checks: "\<forall>e\<in>set p. is_check e \<Longrightarrow> fold step p S = S"
proof (induction p arbitrary: S)
  case Nil
  then show ?case by simp
next
  case (Cons e p)
  then show ?case by (cases e) auto
qed

lemma examined_checks: "\<forall>e\<in>set (examined i as). is_check e"
  by (induction as arbitrary: i) auto

lemma running_spawn_join:
  "\<forall>e\<in>set p. is_check e \<Longrightarrow>
   running (map (\<lambda>i. pthread_create i (f i)) [0..<n] @ map pthread_join [0..<n] @ p) = {}"
  by (simp add: running_def fold_step_create fold_step_join fold_step_checks)

lemma split_at_check:
  assumes "xs @ ys = pre @ check_res i # post" "\<forall>e\<in>set xs. \<not> is_check e"
  shows "\<exists>p. pre = xs @ p \<and> ys = p @ check_res i # post"
  using assms
proof (induction xs arbitrary: pre)
  case Nil
  then show ?case by simp
next
  case (Cons x xs)
  show ?case
  proof (cases pre)
    case Nil
    then have "x = check_res i" using Cons.prems(1) by simp
    then show ?thesis using Cons.prems(2) by simp
  next
    case (Cons q pre')
    then have "xs @ ys = pre' @ check_res i # post" "x = q" using Cons.prems(1) by simp_all
    moreover have "\<forall>e\<in>set xs. \<not> is_check e" using Cons.prems(2) by simp
    ultimately obtain p where "pre' = xs @ p" "ys = p @ check_res i # post"
      using Cons.IH by blast
    then show ?thesis using Cons \<open>x = q\<close> by simp
  qed
qed

text \<open>
  Claim C7. After every batch read no thread it created is running; and at each step in
  which the orchestrating thread reads an outcome, every thread of the call has been
  created and joined, none is running, and none is created from then on. The error of a
  failed worker is raised after these reads.
\<close>

theorem camsys_read_join_barrier:
  "running (trace (camsys_read wd cs)) = {} \<and>
   (\<forall>pre i post. trace (camsys_read wd cs) = pre @ check_res i # post \<longrightarrow>
      running pre = {} \<and>
      (\<forall>j<length (cam_args (camsys_read wd cs)).
         (\<exists>a. pthread_create j a \<in> set pre) \<and> pthread_join j \<in> set pre) \<and>
      (\<forall>j a. pthread_create j a \<notin> set (check_res i # post)))"
proof (cases "trace (camsys_read wd cs) = []")
  case True
  then show ?thesis by (simp add: running_def)
next
  case False
  let ?c = "camsys_read wd cs"
  from False have "trace ?c \<noteq> [] \<or> cam_args ?c \<noteq> [] \<or> work ?c \<noteq> []" by simp
  then obtain cams W H args rs where r:
    "cameras cs = Some cams" "cams \<noteq> []" "sys_width cs = Some W" "sys_height cs = Some H"
    "0 \<le> W" "0 \<le> H" "array_ok wd"
    "length args = length cams" "length rs = length cams"
    "\<forall>k<length cams. args ! k = \<lparr>cam = cams ! k, dst = int k * (W * H * 3), res = 0\<rparr>"
    "\<forall>k<length cams. frame_ok (cams ! k)"
    "\<forall>k<length cams.
       rs ! k = ((args ! k)\<lparr>res := outcome_code (devs wd k)\<rparr>,
                 take (stages_run (devs wd k)) (cycle_stages (args ! k)))"
    "camsys_read wd cs =
       run_and_check \<lparr>dims = [int (length cams), H, W, 3], typenum = NPY_UINT8\<rparr> args rs"
    by (rule camsys_read_reached)
  let ?n = "length args"
  let ?cr = "map (\<lambda>i. pthread_create i (args ! i)) [0..<?n]"
  let ?jn = "map pthread_join [0..<?n]"
  let ?ex = "examined 0 (map fst rs)"
  have tr: "trace ?c = (?cr @ ?jn) @ ?ex" using r(13) by simp
  have len: "length (cam_args ?c) = ?n" using r(8,9,13) by simp
  have ex: "\<forall>e\<in>set ?ex. is_check e" by (rule examined_checks)
  have nochk: "\<forall>e\<in>set (?cr @ ?jn). \<not> is_check e" by auto
  have run: "running (trace ?c) = {}" unfolding tr using running_spawn_join[OF ex] by simp
  have pre: "running pre = {} \<and>
      (\<forall>j<length (cam_args ?c). (\<exists>a. pthread_create j a \<in> set pre) \<and> pthread_join j \<in> set pre) \<and>
      (\<forall>j a. pthread_create j a \<notin> set (check_res i # post))"
    if eq: "trace ?c = pre @ check_res i # post" for pre i post
  proof -
    from eq tr have "(?cr @ ?jn) @ ?ex = pre @ check_res i # post" by simp
    from split_at_check[OF this nochk] obtain p where
      p: "pre = (?cr @ ?jn) @ p" "?ex = p @ check_res i # post" by blast
    have pc: "\<forall>e\<in>set p. is_check e" using ex p(2) by auto
    have "running pre = {}" using running_spawn_join[OF pc] p(1) by simp
    moreover have "(\<exists>a. pthread_create j a \<in> set pre) \<and> pthread_join j \<in> set pre"
      if "j < length (cam_args ?c)" for j
    proof -
      have j: "j < ?n" using that len by simp
      then have "pthread_create j (args ! j) \<in> set ?cr" "pthread_join j \<in> set ?jn" by auto
      then show ?thesis using p(1) by auto
    qed
    moreover have "pthread_create j a \<notin> set (check_res i # post)" for j a
    proof
      assume "pthread_create j a \<in> set (check_res i # post)"
      then have "pthread_create j a \<in> set ?ex" using p(2) by auto
      then have "is_check (pthread_create j a)" using ex by blast
      then show False by simp
    qed
    ultimately show ?thesis by blast
  qed
  show ?thesis using run pre by blast
qed

theorem camsys_read_join_barrier_witness:
  "trace (camsys_read world_fail1 sys2) =
     [pthread_create 0 \<lparr>cam = cam_2x1 ''/dev/video0'' 3, dst = 0, res = 0\<rparr>,
      pthread_create 1 \<lparr>cam = cam_2x1 ''/dev/video1'' 4, dst = 6, res = 0\<rparr>,
      pthread_join 0, pthread_join 1] @ check_res 0 # [check_res 1] \<and>
   running [pthread_create 0 \<lparr>cam = cam_2x1 ''/dev/video0'' 3, dst = 0, res = 0\<rparr>,
      pthread_create 1 \<lparr>cam = cam_2x1 ''/dev/video1'' 4, dst = 6, res = 0\<rparr>,
      pthread_join 0, pthread_join 1] = {} \<and>
   running (trace (camsys_read world_fail1 sys2)) = {}"
  using camsys_read_join_barrier[of world_fail1 sys2] trace_fail1 by blast

section \<open>The pixel-format code\<close>

lemma bit_nat_of_char: "bit (of_char c :: nat) n \<Longrightarrow> n < 8"
proof -
  assume b: "bit (of_char c :: nat) n"
  have "take_bit 8 (of_char c :: nat) = of_char c" by (simp add: take_bit_eq_mod)
  then have "bit (take_bit 8 (of_char c :: nat)) n" using b by simp
  then show "n < 8" by (simp add: bit_take_bit_iff)
qed

lemma bit_word_of_char:
  "bit (of_char c :: 'a::len word) n \<longleftrightarrow> n < LENGTH('a) \<and> n < 8 \<and> bit (of_char c :: nat) n"
proof -
  have "(of_char c :: 'a word) = of_nat (of_char c)" by (simp add: of_nat_of_char)
  then have "bit (of_char c :: 'a word) n \<longleftrightarrow> n < LENGTH('a) \<and> bit (of_char c :: nat) n"
    by (simp add: bit_of_nat_iff)
  then show ?thesis using bit_nat_of_char by blast
qed

lemma FOURCC_byte0: "ucast (FOURCC a b c d) = (of_char a :: 8 word)"
  by (rule bit_word_eqI) (auto simp: FOURCC_def bit_simps bit_word_of_char)

lemma FOURCC_byte1: "ucast (drop_bit 8 (FOURCC a b c d)) = (of_char b :: 8 word)"
  by (rule bit_word_eqI) (auto simp: FOURCC_def bit_simps bit_word_of_char)

lemma FOURCC_byte2: "ucast (drop_bit 16 (FOURCC a b c d)) = (of_char c :: 8 word)"
  by (rule bit_word_eqI) (auto simp: FOURCC_def bit_simps bit_word_of_char)

lemma FOURCC_byte3: "ucast (drop_bit 24 (FOURCC a b c d)) = (of_char d :: 8 word)"
  by (rule bit_word_eqI) (auto simp: FOURCC_def bit_simps bit_word_of_char)

lemma toupper_lower:
  "97 \<le> (of_char c :: nat) \<Longrightarrow> (of_char c :: nat) \<le> 122 \<Longrightarrow>
     (of_char (toupper c) :: nat) = of_char c - 32"
  by (simp add: toupper_def)

lemma toupper_other:
  "\<not> (97 \<le> (of_char c :: nat) \<and> (of_char c :: nat) \<le> 122) \<Longrightarrow> toupper c = c"
  unfolding toupper_def by (rule if_not_P)

text \<open>
  Claim C8. \<open>Camera_init\<close> with a format code whose length is not 4 fails with a value
  error, and the device is not opened by \<open>Camera_init\<close> in any case. A code of four ASCII
  characters is accepted: the tag is the four characters, each through \<open>toupper\<close>, with
  character \<open>k\<close> in byte \<open>k\<close> of the tag counted from the lowest; \<open>toupper\<close> maps a
  lower-case letter to its upper-case letter and leaves every other character as it is.
\<close>

theorem Camera_init_format:
  "(arg_format a = Some s \<and> length s \<noteq> 4 \<longrightarrow>
      Camera_init self a =
        Inl (PyErr (ValueError ([CHR 0x60] @ s @ [CHR 0x60] @ '' is not a valid FOURCC'')))) \<and>
   (arg_format a = Some s \<and> length s = 4 \<and> list_all (\<lambda>c. (of_char c :: nat) < 128) s \<longrightarrow>
      (\<exists>self'. Camera_init self a = Inr self' \<and>
         format self' = Some s \<and> fd self' = - 1 \<and>
         fourcc self' =
           FOURCC (toupper (s ! 0)) (toupper (s ! 1)) (toupper (s ! 2)) (toupper (s ! 3)) \<and>
         ucast (fourcc self') = (of_char (toupper (s ! 0)) :: 8 word) \<and>
         ucast (drop_bit 8 (fourcc self')) = (of_char (toupper (s ! 1)) :: 8 word) \<and>
         ucast (drop_bit 16 (fourcc self')) = (of_char (toupper (s ! 2)) :: 8 word) \<and>
         ucast (drop_bit 24 (fourcc self')) = (of_char (toupper (s ! 3)) :: 8 word))) \<and>
   (\<forall>c. (97 \<le> (of_char c :: nat) \<and> (of_char c :: nat) \<le> 122 \<longrightarrow>
           (of_char (toupper c) :: nat) = of_char c - 32) \<and>
        (\<not> (97 \<le> (of_char c :: nat) \<and> (of_char c :: nat) \<le> 122) \<longrightarrow> toupper c = c))"
proof (intro conjI impI allI)
  assume "arg_format a = Some s \<and> length s \<noteq> 4"
  then show "Camera_init self a =
        Inl (PyErr (ValueError ([CHR 0x60] @ s @ [CHR 0x60] @ '' is not a valid FOURCC'')))"
    by (simp add: Camera_init_def Let_def)
next
  assume h: "arg_format a = Some s \<and> length s = 4 \<and> list_all (\<lambda>c. (of_char c :: nat) < 128) s"
  let ?t = "FOURCC (toupper (s ! 0)) (toupper (s ! 1)) (toupper (s ! 2)) (toupper (s ! 3))"
  have st: "STR2FOURCC s = Inr ?t" using h by (simp add: STR2FOURCC_def)
  let ?self1 = "self\<lparr>
            device := arg_device a,
            width := (case arg_size a of None \<Rightarrow> width self | Some (w, h) \<Rightarrow> w),
            height := (case arg_size a of None \<Rightarrow> height self | Some (w, h) \<Rightarrow> h),
            fps := (case arg_fps a of None \<Rightarrow> fps self | Some f \<Rightarrow> f),
            format := Some s\<rparr>"
  have eq: "Camera_init self a = Inr (?self1\<lparr>fourcc := ?t, n_buffers := 0, fd := - 1\<rparr>)"
    using h st by (simp add: Camera_init_def Let_def)
  show "\<exists>self'. Camera_init self a = Inr self' \<and>
         format self' = Some s \<and> fd self' = - 1 \<and>
         fourcc self' = ?t \<and>
         ucast (fourcc self') = (of_char (toupper (s ! 0)) :: 8 word) \<and>
         ucast (drop_bit 8 (fourcc self')) = (of_char (toupper (s ! 1)) :: 8 word) \<and>
         ucast (drop_bit 16 (fourcc self')) = (of_char (toupper (s ! 2)) :: 8 word) \<and>
         ucast (drop_bit 24 (fourcc self')) = (of_char (toupper (s ! 3)) :: 8 word)"
    unfolding eq by (simp add: FOURCC_byte0 FOURCC_byte1 FOURCC_byte2 FOURCC_byte3)
next
  fix c assume "97 \<le> (of_char c :: nat) \<and> (of_char c :: nat) \<le> 122"
  then show "(of_char (toupper c) :: nat) = of_char c - 32" by (simp add: toupper_lower)
next
  fix c assume "\<not> (97 \<le> (of_char c :: nat) \<and> (of_char c :: nat) \<le> 122)"
  then show "toupper c = c" by (rule toupper_other)
qed

theorem Camera_init_format_witness:
  "arg_format args_rgb3 = Some ''rgb3'' \<and> length ''rgb3'' = 4 \<and>
   list_all (\<lambda>c. (of_char c :: nat) < 128) ''rgb3'' \<and>
   (\<exists>self'. Camera_init fresh_camera args_rgb3 = Inr self' \<and> fourcc self' = 0x33424752 \<and>
      ucast (fourcc self') = (of_char CHR ''R'' :: 8 word)) \<and>
   arg_format args_rgb = Some ''rgb'' \<and> length ''rgb'' \<noteq> 4 \<and>
   Camera_init fresh_camera args_rgb =
     Inl (PyErr (ValueError ([CHR 0x60] @ ''rgb'' @ [CHR 0x60] @ '' is not a valid FOURCC'')))"
proof -
  have h: "arg_format args_rgb3 = Some ''rgb3'' \<and> length ''rgb3'' = 4 \<and>
   list_all (\<lambda>c. (of_char c :: nat) < 128) ''rgb3''" by (simp add: args_rgb3_def)
  have f: "FOURCC (toupper (''rgb3'' ! 0)) (toupper (''rgb3'' ! 1)) (toupper (''rgb3'' ! 2))
      (toupper (''rgb3'' ! 3)) = 0x33424752" by code_simp
  have u: "toupper (''rgb3'' ! 0) = CHR ''R''" by code_simp
  from Camera_init_format[of args_rgb3 "''rgb3''" fresh_camera] h
  obtain self' where s: "Camera_init fresh_camera args_rgb3 = Inr self'"
    "fourcc self' = FOURCC (toupper (''rgb3'' ! 0)) (toupper (''rgb3'' ! 1)) (toupper (''rgb3'' ! 2))
      (toupper (''rgb3'' ! 3))"
    "ucast (fourcc self') = (of_char (toupper (''rgb3'' ! 0)) :: 8 word)"
    by blast
  have g: "arg_format args_rgb = Some ''rgb'' \<and> length ''rgb'' \<noteq> 4" by (simp add: args_rgb_def)
  from Camera_init_format[of args_rgb "''rgb''" fresh_camera] g
  have r: "Camera_init fresh_camera args_rgb =
     Inl (PyErr (ValueError ([CHR 0x60] @ ''rgb'' @ [CHR 0x60] @ '' is not a valid FOURCC'')))"
    by blast
  from s f u have "\<exists>self'. Camera_init fresh_camera args_rgb3 = Inr self' \<and>
      fourcc self' = 0x33424752 \<and> ucast (fourcc self') = (of_char CHR ''R'' :: 8 word)" by auto
  then show ?thesis using h g r by blast
qed

section \<open>The outcome codes and the error messages\<close>

lemma outcome_code_iff:
  "outcome_code d \<in> {0, 1, 2, 3, 4}"
  "outcome_code d = 0 \<longleftrightarrow>
     dqbuf_ret d \<noteq> - 1 \<and> to_argb_ret d = 0 \<and> qbuf_ret d \<noteq> - 1 \<and> to_raw_ret d = 0"
  "outcome_code d = 1 \<longleftrightarrow> dqbuf_ret d = - 1"
  "outcome_code d = 2 \<longleftrightarrow> dqbuf_ret d \<noteq> - 1 \<and> to_argb_ret d \<noteq> 0"
  "outcome_code d = 3 \<longleftrightarrow> dqbuf_ret d \<noteq> - 1 \<and> to_argb_ret d = 0 \<and> qbuf_ret d = - 1"
  "outcome_code d = 4 \<longleftrightarrow>
     dqbuf_ret d \<noteq> - 1 \<and> to_argb_ret d = 0 \<and> qbuf_ret d \<noteq> - 1 \<and> to_raw_ret d \<noteq> 0"
  by (auto simp: outcome_code_def first_failed_def stage_fails_def)

lemma fmt_i_codes:
  "fmt_i 0 = ''0'' \<and> fmt_i 1 = ''1'' \<and> fmt_i 2 = ''2'' \<and> fmt_i 3 = ''3'' \<and> fmt_i 4 = ''4''"
  by code_simp

lemma camera_read_eq:
  assumes "frame_ok self"
  shows "camera_read wd d self =
    \<lparr>ret = (if outcome_code d \<noteq> 0
            then Inl (PyErr (RuntimeError (''Reading image failed: '' @ fmt_i (outcome_code d) @ [newline])))
            else (case PyArray_New wd [height self, width self, 3] NPY_UINT8 of
                    None \<Rightarrow> Inl (PyErr (RuntimeError (''PyArray_NEW failed'' @ [newline])))
                  | Some arr \<Rightarrow> Inr arr)),
     trace = [pthread_create 0 \<lparr>cam = self, dst = 0, res = 0\<rparr>, pthread_join 0, check_res 0],
     cam_args = [\<lparr>cam = self, dst = 0, res = outcome_code d\<rparr>],
     work = [take (stages_run d) (cycle_stages \<lparr>cam = self, dst = 0, res = 0\<rparr>)]\<rparr>"
proof -
  have b: "0 < width self * height self" "width self * height self * 4 \<le> INT_MAX"
    using frame_ok_bounds[OF assms] by auto
  then have m1: "mul_int (width self) (height self) = Inr (width self * height self)"
    by (simp add: mul_int_def INT_MIN_def INT_MAX_def)
  have m2: "mul_int (width self * height self) 3 = Inr (width self * height self * 3)"
    using b by (simp add: mul_int_def INT_MIN_def INT_MAX_def)
  have w: "cam_read_worker d \<lparr>cam = self, dst = 0, res = 0\<rparr> =
    Inr (\<lparr>cam = self, dst = 0, res = outcome_code d\<rparr>,
         take (stages_run d) (cycle_stages \<lparr>cam = self, dst = 0, res = 0\<rparr>))"
    using worker_eq[of "\<lparr>cam = self, dst = 0, res = 0\<rparr>" d] assms by simp
  show ?thesis by (simp add: camera_read_def m1 m2 w Let_def)
qed

text \<open>
  Claim C9. The outcome a worker leaves is one of 0, 1, 2, 3, 4: 0 when no stage fails,
  1 when the dequeue fails, 2 when the first conversion fails, 3 when the requeue fails,
  4 when the second conversion fails. The runtime error of the single-device read and the
  one of the batch read hold that number as \<open>%i\<close> prints it, which for these five values
  is the one digit.
\<close>

theorem outcome_codes_in_messages:
  "(\<forall>a' tr. cam_read_worker d a = Inr (a', tr) \<longrightarrow>
      res a' \<in> {0, 1, 2, 3, 4} \<and>
      (res a' = 0 \<longleftrightarrow>
         dqbuf_ret d \<noteq> - 1 \<and> to_argb_ret d = 0 \<and> qbuf_ret d \<noteq> - 1 \<and> to_raw_ret d = 0) \<and>
      (res a' = 1 \<longleftrightarrow> dqbuf_ret d = - 1) \<and>
      (res a' = 2 \<longleftrightarrow> dqbuf_ret d \<noteq> - 1 \<and> to_argb_ret d \<noteq> 0) \<and>
      (res a' = 3 \<longleftrightarrow> dqbuf_ret d \<noteq> - 1 \<and> to_argb_ret d = 0 \<and> qbuf_ret d = - 1) \<and>
      (res a' = 4 \<longleftrightarrow>
         dqbuf_ret d \<noteq> - 1 \<and> to_argb_ret d = 0 \<and> qbuf_ret d \<noteq> - 1 \<and> to_raw_ret d \<noteq> 0)) \<and>
   (\<forall>r. cam_args (camera_read wd d self) = [\<lparr>cam = self, dst = 0, res = r\<rparr>] \<and> r \<noteq> 0 \<longrightarrow>
      r = outcome_code d \<and>
      ret (camera_read wd d self) =
        Inl (PyErr (RuntimeError (''Reading image failed: '' @ fmt_i r @ [newline])))) \<and>
   (\<forall>k r. first_error 0 (cam_args (camsys_read wd cs)) = Some (k, r) \<longrightarrow>
      r = outcome_code (devs wd k) \<and> r \<in> {1, 2, 3, 4} \<and>
      ret (camsys_read wd cs) =
        Inl (PyErr (RuntimeError
          (''Reading image from camera '' @ fmt_i (int k) @ '' failed: '' @ fmt_i r @ [newline])))) \<and>
   fmt_i 0 = ''0'' \<and> fmt_i 1 = ''1'' \<and> fmt_i 2 = ''2'' \<and> fmt_i 3 = ''3'' \<and> fmt_i 4 = ''4''"
proof (intro conjI allI impI)
  fix a' tr assume w: "cam_read_worker d a = Inr (a', tr)"
  then have "frame_ok (cam a)" using worker_defined_iff by blast
  from worker_eq[OF this, of d] w have r: "res a' = outcome_code d" by auto
  show "res a' \<in> {0, 1, 2, 3, 4}" unfolding r by (rule outcome_code_iff)
  show "res a' = 0 \<longleftrightarrow>
     dqbuf_ret d \<noteq> - 1 \<and> to_argb_ret d = 0 \<and> qbuf_ret d \<noteq> - 1 \<and> to_raw_ret d = 0"
    unfolding r by (rule outcome_code_iff)
  show "res a' = 1 \<longleftrightarrow> dqbuf_ret d = - 1" unfolding r by (rule outcome_code_iff)
  show "res a' = 2 \<longleftrightarrow> dqbuf_ret d \<noteq> - 1 \<and> to_argb_ret d \<noteq> 0"
    unfolding r by (rule outcome_code_iff)
  show "res a' = 3 \<longleftrightarrow> dqbuf_ret d \<noteq> - 1 \<and> to_argb_ret d = 0 \<and> qbuf_ret d = - 1"
    unfolding r by (rule outcome_code_iff)
  show "res a' = 4 \<longleftrightarrow>
     dqbuf_ret d \<noteq> - 1 \<and> to_argb_ret d = 0 \<and> qbuf_ret d \<noteq> - 1 \<and> to_raw_ret d \<noteq> 0"
    unfolding r by (rule outcome_code_iff)
next
  fix r assume a: "cam_args (camera_read wd d self) = [\<lparr>cam = self, dst = 0, res = r\<rparr>] \<and> r \<noteq> 0"
  have fo: "frame_ok self"
  proof (rule ccontr)
    assume "\<not> frame_ok self"
    then have "\<not> (\<exists>x. cam_read_worker d \<lparr>cam = self, dst = 0, res = 0\<rparr> = Inr x)"
      using worker_defined_iff[of d "\<lparr>cam = self, dst = 0, res = 0\<rparr>"] by simp
    then have "cam_args (camera_read wd d self) = []"
      by (auto simp: camera_read_def Let_def split: sum.splits)
    then show False using a by simp
  qed
  from camera_read_eq[OF fo, of wd d] a have r: "r = outcome_code d" by simp
  show "r = outcome_code d" by (rule r)
  show "ret (camera_read wd d self) =
        Inl (PyErr (RuntimeError (''Reading image failed: '' @ fmt_i r @ [newline])))"
    using camera_read_eq[OF fo, of wd d] a r by simp
next
  fix k r assume fe: "first_error 0 (cam_args (camsys_read wd cs)) = Some (k, r)"
  let ?c = "camsys_read wd cs"
  from fe have "cam_args ?c \<noteq> []" by auto
  then obtain cams W H args rs where q:
    "cameras cs = Some cams" "cams \<noteq> []" "sys_width cs = Some W" "sys_height cs = Some H"
    "0 \<le> W" "0 \<le> H" "array_ok wd"
    "length args = length cams" "length rs = length cams"
    "\<forall>k<length cams. args ! k = \<lparr>cam = cams ! k, dst = int k * (W * H * 3), res = 0\<rparr>"
    "\<forall>k<length cams. frame_ok (cams ! k)"
    "\<forall>k<length cams.
       rs ! k = ((args ! k)\<lparr>res := outcome_code (devs wd k)\<rparr>,
                 take (stages_run (devs wd k)) (cycle_stages (args ! k)))"
    "camsys_read wd cs =
       run_and_check \<lparr>dims = [int (length cams), H, W, 3], typenum = NPY_UINT8\<rparr> args rs"
    by (rule reached_cam_args)
  have ca: "cam_args ?c = map fst rs" using q(13) by simp
  from first_error_Some[OF fe] have k: "k < length (cam_args ?c)" "res (cam_args ?c ! k) = r" "r \<noteq> 0"
    by auto
  then have kc: "k < length cams" using ca q(9) by simp
  show r: "r = outcome_code (devs wd k)" using q(9,12) kc ca k(2) by auto
  show "r \<in> {1, 2, 3, 4}" using outcome_code_iff(1)[of "devs wd k"] r k(3) by auto
  show "ret ?c = Inl (PyErr (RuntimeError
          (''Reading image from camera '' @ fmt_i (int k) @ '' failed: '' @ fmt_i r @ [newline])))"
    using fe ca q(13) by (simp add: run_and_check_ret)
qed (use fmt_i_codes in simp_all)

theorem outcome_codes_in_messages_witness:
  "cam_read_worker conv1_fails \<lparr>cam = cam_2x1 ''/dev/video0'' 3, dst = 0, res = 0\<rparr> =
     Inr (\<lparr>cam = cam_2x1 ''/dev/video0'' 3, dst = 0, res = 2\<rparr>, [DQBUF, ConvertToARGB 8 8 2 1]) \<and>
   cam_args (camera_read world_fail1 conv1_fails (cam_2x1 ''/dev/video0'' 3)) =
     [\<lparr>cam = cam_2x1 ''/dev/video0'' 3, dst = 0, res = 2\<rparr>] \<and>
   ret (camera_read world_fail1 conv1_fails (cam_2x1 ''/dev/video0'' 3)) =
     Inl (PyErr (RuntimeError (''Reading image failed: '' @ fmt_i 2 @ [newline]))) \<and>
   first_error 0 (cam_args (camsys_read world_fail1 sys2)) = Some (1, 2) \<and>
   ret (camsys_read world_fail1 sys2) =
     Inl (PyErr (RuntimeError
       (''Reading image from camera '' @ fmt_i (int 1) @ '' failed: '' @ fmt_i 2 @ [newline]))) \<and>
   dqbuf_ret conv1_fails \<noteq> - 1 \<and> to_argb_ret conv1_fails \<noteq> 0"
proof -
  have w: "cam_read_worker conv1_fails \<lparr>cam = cam_2x1 ''/dev/video0'' 3, dst = 0, res = 0\<rparr> =
     Inr (\<lparr>cam = cam_2x1 ''/dev/video0'' 3, dst = 0, res = 2\<rparr>, [DQBUF, ConvertToARGB 8 8 2 1])"
    by code_simp
  have c: "cam_args (camera_read world_fail1 conv1_fails (cam_2x1 ''/dev/video0'' 3)) =
     [\<lparr>cam = cam_2x1 ''/dev/video0'' 3, dst = 0, res = 2\<rparr>]" by code_simp
  have f: "first_error 0 (cam_args (camsys_read world_fail1 sys2)) = Some (1, 2)"
    by (simp add: cam_args_fail1)
  note t = outcome_codes_in_messages[where d = conv1_fails
      and a = "\<lparr>cam = cam_2x1 ''/dev/video0'' 3, dst = 0, res = 0\<rparr>"
      and wd = world_fail1 and self = "cam_2x1 ''/dev/video0'' 3" and cs = sys2]
  from t w have "dqbuf_ret conv1_fails \<noteq> - 1 \<and> to_argb_ret conv1_fails \<noteq> 0" by auto
  moreover from t c have "ret (camera_read world_fail1 conv1_fails (cam_2x1 ''/dev/video0'' 3)) =
     Inl (PyErr (RuntimeError (''Reading image failed: '' @ fmt_i 2 @ [newline])))" by auto
  moreover from t f have "ret (camsys_read world_fail1 sys2) =
     Inl (PyErr (RuntimeError
       (''Reading image from camera '' @ fmt_i (int 1) @ '' failed: '' @ fmt_i 2 @ [newline])))"
    by auto
  ultimately show ?thesis using w c f by blast
qed

section \<open>The sizes a worker uses\<close>

text \<open>
  Claim C10. In a batch read the destination of the thread at index \<open>i\<close> is computed from
  the width and height of the capture system, while its worker sizes the scratch array
  and the rows it writes from the width and height of its own camera. When these are the
  capture system's, the bytes the worker addresses lie in its slice. Without that they
  need not: with cameras of 2 by 1 pixels in a capture system of 1 by 1, the first worker
  addresses bytes outside its slice, and a byte the second worker addresses too.
\<close>

theorem camsys_read_own_size:
  assumes "cameras cs = Some cams" and "sys_width cs = Some W" and "sys_height cs = Some H"
    and "trace (camsys_read wd cs) \<noteq> []" and "i < length cams"
  shows "(\<exists>a. trace (camsys_read wd cs) ! i = pthread_create i a \<and>
       cam a = cams ! i \<and> dst a = int i * (W * H * 3) \<and>
       work (camsys_read wd cs) ! i = take (stages_run (devs wd i)) (cycle_stages a) \<and>
       worker_writes (work (camsys_read wd cs) ! i)
         \<subseteq> {dst a ..< dst a + height (cams ! i) * width (cams ! i) * 3} \<and>
       (width (cams ! i) = W \<and> height (cams ! i) = H \<longrightarrow>
          worker_writes (work (camsys_read wd cs) ! i) \<subseteq> slice (W * H * 3) a)) \<and>
     \<not> worker_writes (work (camsys_read world_ok sys_1x1) ! 0)
         \<subseteq> slice (1 * 1 * 3) \<lparr>cam = cam_2x1 ''/dev/video0'' 3, dst = 0, res = 0\<rparr> \<and>
     worker_writes (work (camsys_read world_ok sys_1x1) ! 0)
       \<inter> worker_writes (work (camsys_read world_ok sys_1x1) ! 1) \<noteq> {}"
proof -
  let ?c = "camsys_read wd cs"
  from assms(4) have "trace ?c \<noteq> [] \<or> cam_args ?c \<noteq> [] \<or> work ?c \<noteq> []" by simp
  then obtain cams' W' H' args rs where r:
    "cameras cs = Some cams'" "cams' \<noteq> []" "sys_width cs = Some W'" "sys_height cs = Some H'"
    "0 \<le> W'" "0 \<le> H'" "array_ok wd"
    "length args = length cams'" "length rs = length cams'"
    "\<forall>k<length cams'. args ! k = \<lparr>cam = cams' ! k, dst = int k * (W' * H' * 3), res = 0\<rparr>"
    "\<forall>k<length cams'. frame_ok (cams' ! k)"
    "\<forall>k<length cams'.
       rs ! k = ((args ! k)\<lparr>res := outcome_code (devs wd k)\<rparr>,
                 take (stages_run (devs wd k)) (cycle_stages (args ! k)))"
    "camsys_read wd cs =
       run_and_check \<lparr>dims = [int (length cams'), H', W', 3], typenum = NPY_UINT8\<rparr> args rs"
    by (rule camsys_read_reached)
  from r(1,3,4) assms(1-3) have [simp]: "cams' = cams" "W' = W" "H' = H" by simp_all
  let ?a = "args ! i"
  have a: "?a = \<lparr>cam = cams ! i, dst = int i * (W * H * 3), res = 0\<rparr>" using r(10) assms(5) by simp
  have t: "trace ?c ! i = pthread_create i ?a"
    using r(8,13) assms(5) by (simp add: nth_append)
  have w: "work ?c ! i = take (stages_run (devs wd i)) (cycle_stages ?a)"
    using r(9,12,13) assms(5) by simp
  have s: "worker_writes (work ?c ! i) \<subseteq> {dst ?a ..< dst ?a + height (cams ! i) * width (cams ! i) * 3}"
    unfolding w using worker_writes_stages[of "stages_run (devs wd i)" ?a] a by simp
  have e: "width (cams ! i) = W \<and> height (cams ! i) = H \<longrightarrow>
          worker_writes (work ?c ! i) \<subseteq> slice (W * H * 3) ?a"
    using s by (auto simp: slice_def mult.commute)
  have first: "\<exists>a. trace ?c ! i = pthread_create i a \<and>
       cam a = cams ! i \<and> dst a = int i * (W * H * 3) \<and>
       work ?c ! i = take (stages_run (devs wd i)) (cycle_stages a) \<and>
       worker_writes (work ?c ! i) \<subseteq> {dst a ..< dst a + height (cams ! i) * width (cams ! i) * 3} \<and>
       (width (cams ! i) = W \<and> height (cams ! i) = H \<longrightarrow>
          worker_writes (work ?c ! i) \<subseteq> slice (W * H * 3) a)"
    using t a w s e by (intro exI[of _ ?a]) simp
  have second: "\<not> worker_writes (work (camsys_read world_ok sys_1x1) ! 0)
         \<subseteq> slice (1 * 1 * 3) \<lparr>cam = cam_2x1 ''/dev/video0'' 3, dst = 0, res = 0\<rparr>"
    by (simp add: work_sys_1x1 worker_writes_def slice_def)
  have third: "worker_writes (work (camsys_read world_ok sys_1x1) ! 0)
       \<inter> worker_writes (work (camsys_read world_ok sys_1x1) ! 1) \<noteq> {}"
  proof -
    have "(3::int) \<in> worker_writes (work (camsys_read world_ok sys_1x1) ! 0)
       \<inter> worker_writes (work (camsys_read world_ok sys_1x1) ! 1)"
      by (simp add: work_sys_1x1 worker_writes_def)
    then show ?thesis by blast
  qed
  show ?thesis using first second third by blast
qed

theorem camsys_read_own_size_witness:
  "cameras sys2 = Some cams2 \<and> sys_width sys2 = Some 2 \<and> sys_height sys2 = Some 1 \<and>
   trace (camsys_read world_ok sys2) \<noteq> [] \<and> 1 < length cams2 \<and>
   width (cams2 ! 1) = 2 \<and> height (cams2 ! 1) = 1 \<and>
   (\<exists>a. trace (camsys_read world_ok sys2) ! 1 = pthread_create 1 a \<and>
       dst a = int 1 * (2 * 1 * 3) \<and>
       worker_writes (work (camsys_read world_ok sys2) ! 1) \<subseteq> slice (2 * 1 * 3) a)"
proof -
  have h1: "cameras sys2 = Some cams2" by (simp add: sys2_def)
  have h2: "sys_width sys2 = Some 2" by (simp add: sys2_def)
  have h3: "sys_height sys2 = Some 1" by (simp add: sys2_def)
  have h4: "trace (camsys_read world_ok sys2) \<noteq> []" by code_simp
  have h5: "1 < length cams2" by (simp add: cams2_def)
  have h6: "width (cams2 ! 1) = 2 \<and> height (cams2 ! 1) = 1" by (simp add: cams2_def cam_2x1_def)
  from camsys_read_own_size[OF h1 h2 h3 h4 h5] h6
  have "\<exists>a. trace (camsys_read world_ok sys2) ! 1 = pthread_create 1 a \<and>
       dst a = int 1 * (2 * 1 * 3) \<and>
       worker_writes (work (camsys_read world_ok sys2) ! 1) \<subseteq> slice (2 * 1 * 3) a"
    by blast
  then show ?thesis using h1 h2 h3 h4 h5 h6 by blast
qed

end
